theory Spec2Isabelle
  imports Complex_Main "HOL-Library.Multiset" "HOL-Library.Signed_Division" "HOL-Library.Sublist"
    "HOL-Library.Char_ord" "HOL-Library.List_Lexorder"
begin

section \<open>Values, errors and the formatting library\<close>

text \<open>
  The engine stores untyped Go values (\<^verbatim>\<open>interface{}\<close>). The kinds that reach it are
  strings, integers (\<^verbatim>\<open>int\<close> from the fact builder, \<^verbatim>\<open>int64\<close> from the parser),
  \<^verbatim>\<open>float64\<close> and booleans. A \<^verbatim>\<open>float64\<close> is modelled by the real number it denotes:
  infinities and NaN are outside the model, and so is rounding, except in the one sum
  whose result the program compares for equality (\<open>add_float64\<close> below). An integer is
  modelled by an unbounded \<open>int\<close> (the counts and indices of the program stay far below 64
  bits); the two places where an \<^verbatim>\<open>int\<close> comes from a \<^verbatim>\<open>float64\<close> of any size keep their
  64 bits (\<open>go_int\<close> and \<open>wrap_int\<close> below).
\<close>

datatype Value = VString string | VInt int | VFloat real | VBool bool

text \<open>
  A failure is either an \<^verbatim>\<open>error\<close> value returned to the caller (\<^verbatim>\<open>fmt.Errorf\<close>) or a
  run-time panic, which no caller in the repository recovers from.
\<close>

datatype error = Errorf string | Panic string

text \<open>
  Five functions of Go's standard library are not part of the repository and work on
  floating-point numbers or read numbers from text: \<^verbatim>\<open>fmt.Sprint\<close> of a \<^verbatim>\<open>float64\<close>, the
  verb \<^verbatim>\<open>%.Nf\<close> of \<^verbatim>\<open>fmt.Sprintf\<close>, \<^verbatim>\<open>math.Mod\<close>, \<^verbatim>\<open>strconv.ParseInt(s, 10, 64)\<close> and
  \<^verbatim>\<open>strconv.ParseFloat(s, 64)\<close> (\<open>None\<close> when they return an error). They are parameters
  of the model, and so are two operations of the language where the real numbers do not
  say what a \<^verbatim>\<open>float64\<close> does:

    \<^item> \<open>add_float64\<close>, the sum \<^verbatim>\<open>x + y\<close> of two \<^verbatim>\<open>float64\<close>, which is the real sum rounded.
      It is used where the program compares a sum with other numbers for equality (the end
      point of an event in the sweep of \<^verbatim>\<open>computeMaxConcurrency\<close>), since rounding can
      make two sums meet that differ over the reals;

    \<^item> \<open>int_out_of_range\<close>, the value of the conversion \<^verbatim>\<open>int(x)\<close> when the integer part of
      \<open>x\<close> does not fit the 64 bits of an \<^verbatim>\<open>int\<close>: the language leaves it to the
      implementation.
\<close>

record GoLib =
  sprint_float :: "real \<Rightarrow> string"
  sprintf_f :: "nat \<Rightarrow> real \<Rightarrow> string"
  math_Mod :: "real \<Rightarrow> real \<Rightarrow> real"
  ParseInt :: "string \<Rightarrow> int option"
  ParseFloat :: "string \<Rightarrow> real option"
  add_float64 :: "real \<Rightarrow> real \<Rightarrow> real"
  int_out_of_range :: "real \<Rightarrow> int"

definition digit_char :: "nat \<Rightarrow> char" where
  "digit_char d = ''0123456789'' ! d"

function show_nat :: "nat \<Rightarrow> string" where
  "show_nat n = (if n < 10 then [digit_char n] else show_nat (n div 10) @ [digit_char (n mod 10)])"
  by pat_completeness auto
termination
  by (relation "measure id") auto

declare show_nat.simps [simp del]

text \<open>The verb \<^verbatim>\<open>%d\<close>, and \<^verbatim>\<open>fmt.Sprint\<close> of an integer.\<close>

definition show_int :: "int \<Rightarrow> string" where
  "show_int i = (if i < 0 then CHR ''-'' # show_nat (nat (- i)) else show_nat (nat i))"

text \<open>\<^verbatim>\<open>fmt.Sprint(v)\<close> for one value.\<close>

fun Sprint :: "GoLib \<Rightarrow> Value \<Rightarrow> string" where
  "Sprint L (VString s) = s"
| "Sprint L (VInt i) = show_int i"
| "Sprint L (VFloat r) = sprint_float L r"
| "Sprint L (VBool b) = (if b then ''true'' else ''false'')"

text \<open>The name \<^verbatim>\<open>%T\<close> prints for a value.\<close>

fun type_name :: "Value \<Rightarrow> string" where
  "type_name (VString s) = ''string''"
| "type_name (VInt i) = ''int''"
| "type_name (VFloat r) = ''float64''"
| "type_name (VBool b) = ''bool''"

fun toFloat64 :: "Value \<Rightarrow> error + real" where
  "toFloat64 (VFloat v) = Inr v"
| "toFloat64 (VInt v) = Inr (of_int v)"
| "toFloat64 v = Inl (Errorf (''cannot convert '' @ type_name v @ '' to float64''))"

definition toFloat64NoErr :: "Value \<Rightarrow> real \<times> bool" where
  "toFloat64NoErr val = (case toFloat64 val of Inl err \<Rightarrow> (0, False) | Inr num \<Rightarrow> (num, True))"

text \<open>
  The conversion \<^verbatim>\<open>int(x)\<close> of a \<^verbatim>\<open>float64\<close> drops the fraction (towards zero) when the
  result fits an \<^verbatim>\<open>int\<close>, which has 64 bits on the platforms the program is built for;
  otherwise the result is the implementation's. The operator \<^verbatim>\<open>%\<close> on integers is the
  remainder of the division that truncates (\<open>smod\<close>), and \<open>wrap_int\<close> is the value an
  \<^verbatim>\<open>int\<close> holds after an addition or subtraction whose exact result is its argument.
\<close>

definition truncate_real :: "real \<Rightarrow> int" where
  "truncate_real x = (if x < 0 then \<lceil>x\<rceil> else \<lfloor>x\<rfloor>)"

definition fits_int :: "int \<Rightarrow> bool" where
  "fits_int i = (- (2 ^ 63) \<le> i \<and> i < 2 ^ 63)"

definition go_int :: "GoLib \<Rightarrow> real \<Rightarrow> int" where
  "go_int L x = (if fits_int (truncate_real x) then truncate_real x else int_out_of_range L x)"

definition wrap_int :: "int \<Rightarrow> int" where
  "wrap_int i = (i + 2 ^ 63) mod 2 ^ 64 - 2 ^ 63"

section \<open>Formatting built-ins\<close>

text \<open>The two bytes of the UTF-8 encoding of the micro sign, then \<open>s\<close>.\<close>

definition mu_s :: string where
  "mu_s = [CHR 0xCE, CHR 0xBC, CHR ''s'']"

definition FormatDuration :: "GoLib \<Rightarrow> real \<Rightarrow> string" where
  "FormatDuration L us =
     (if us < 1000 then sprintf_f L 0 us @ mu_s
      else let ms = us / 1000 in
        if ms < 1000 then sprintf_f L 1 ms @ ''ms''
        else let s = ms / 1000 in
          if s < 60 then sprintf_f L 2 s @ ''s''
          else let m = s / 60 in
            if m < 60 then
              (let remainingS = go_int L s smod 60
               in sprintf_f L 0 m @ ''m '' @ show_int remainingS @ ''s'')
            else
              (let h = m / 60; remainingM = go_int L m smod 60
               in sprintf_f L 0 h @ ''h '' @ show_int remainingM @ ''m''))"

definition builtin_format_time :: "GoLib \<Rightarrow> Value list \<Rightarrow> error + Value" where
  "builtin_format_time L args =
     (if length args \<noteq> 1 then Inl (Errorf ''format_time expects 1 argument'')
      else case toFloat64 (args ! 0) of
             Inl err \<Rightarrow> Inl err
           | Inr us \<Rightarrow> Inr (VString (FormatDuration L us)))"

text \<open>
  \<^verbatim>\<open>str[:hi]\<close> panics unless \<open>0 \<le> hi \<le> len(str)\<close>. In \<^verbatim>\<open>truncate\<close> the bound is
  \<^verbatim>\<open>int(maxLen)-3\<close>, a subtraction of \<^verbatim>\<open>int\<close> that wraps around.
\<close>

definition slice_to :: "string \<Rightarrow> int \<Rightarrow> error + string" where
  "slice_to str hi =
     (if hi < 0 \<or> int (length str) < hi then Inl (Panic ''slice bounds out of range'')
      else Inr (take (nat hi) str))"

definition builtin_truncate :: "GoLib \<Rightarrow> Value list \<Rightarrow> error + Value" where
  "builtin_truncate L args =
     (if length args \<noteq> 2 then Inl (Errorf ''truncate expects 2 arguments'')
      else let str = Sprint L (args ! 0) in
        case toFloat64 (args ! 1) of
          Inl err \<Rightarrow> Inl err
        | Inr maxLen \<Rightarrow>
            if int (length str) > go_int L maxLen then
              (case slice_to str (wrap_int (go_int L maxLen - 3)) of
                 Inl err \<Rightarrow> Inl err
               | Inr pre \<Rightarrow> Inr (VString (pre @ ''...'')))
            else Inr (VString str))"

text \<open>
  One instance of the library parameters, for evaluating examples: \<^verbatim>\<open>%.Nf\<close> as the
  decimal expansion rounded to \<open>N\<close> places (ties to even), \<^verbatim>\<open>fmt.Sprint\<close> of a whole
  number as its digits, \<^verbatim>\<open>math.Mod\<close> as the remainder of the truncated quotient, the
  two readers on plain decimal numerals (a sign, digits, and for \<^verbatim>\<open>ParseFloat\<close> a fraction),
  the sum of two \<^verbatim>\<open>float64\<close> as the real sum (which it is on the whole numbers of the
  examples, all far below \<open>2^53\<close>) and the least \<^verbatim>\<open>int\<close> for a conversion out of range (what
  amd64 gives). The theorems below hold for every instance.
\<close>

definition round_half_even :: "real \<Rightarrow> int" where
  "round_half_even x =
     (let f = \<lfloor>x\<rfloor>; d = x - of_int f
      in if d < 1/2 then f else if 1/2 < d then f + 1 else if even f then f else f + 1)"

definition fixed_f :: "nat \<Rightarrow> real \<Rightarrow> string" where
  "fixed_f n x =
     (let k = nat (round_half_even (\<bar>x\<bar> * 10 ^ n));
          frac = show_nat (k mod 10 ^ n)
      in (if x < 0 then ''-'' else '''') @ show_nat (k div 10 ^ n) @
         (if n = 0 then '''' else ''.'' @ replicate (n - length frac) CHR ''0'' @ frac))"

fun read_digits :: "string \<Rightarrow> nat \<Rightarrow> nat option" where
  "read_digits [] acc = Some acc"
| "read_digits (c # cs) acc =
     (if CHR ''0'' \<le> c \<and> c \<le> CHR ''9''
      then read_digits cs (10 * acc + (of_char c - of_char CHR ''0'' :: nat))
      else None)"

definition read_nat :: "string \<Rightarrow> nat option" where
  "read_nat s = (if s = [] then None else read_digits s 0)"

definition read_int :: "string \<Rightarrow> int option" where
  "read_int s =
     (case s of
        [] \<Rightarrow> None
      | c # cs \<Rightarrow>
          (if c = CHR ''-'' then map_option (\<lambda>n. - int n) (read_nat cs)
           else map_option int (read_nat s)))"

definition read_int64 :: "string \<Rightarrow> int option" where
  "read_int64 s =
     (case read_int s of
        None \<Rightarrow> None
      | Some i \<Rightarrow> if - (2 ^ 63) \<le> i \<and> i < 2 ^ 63 then Some i else None)"

definition read_decimal :: "string \<Rightarrow> real option" where
  "read_decimal s =
     (let whole = takeWhile (\<lambda>c. c \<noteq> CHR ''.'') s;
          frac = drop 1 (dropWhile (\<lambda>c. c \<noteq> CHR ''.'') s)
      in case read_int whole of
           None \<Rightarrow> None
         | Some i \<Rightarrow>
             (if frac = [] then (if CHR ''.'' \<in> set s then None else Some (of_int i))
              else case read_nat frac of
                     None \<Rightarrow> None
                   | Some f \<Rightarrow>
                       Some ((if hd s = CHR ''-'' then - 1 else 1)
                             * (of_int \<bar>i\<bar> + of_nat f / 10 ^ length frac))))"

definition sampleLib :: GoLib where
  "sampleLib =
     \<lparr> sprint_float = (\<lambda>x. if x = of_int \<lfloor>x\<rfloor> then show_int \<lfloor>x\<rfloor> else fixed_f 6 x),
       sprintf_f = fixed_f,
       math_Mod = (\<lambda>x y. x - y * of_int (truncate_real (x / y))),
       ParseInt = read_int64,
       ParseFloat = read_decimal,
       add_float64 = (\<lambda>x y. x + y),
       int_out_of_range = (\<lambda>x. - (2 ^ 63)) \<rparr>"

section \<open>Suggestions: ordering and deduplication\<close>

record Metric =
  Label :: string
  MetricValue :: string

record Suggestion =
  ID :: string
  RuleID :: string
  Type :: string
  Impact :: string
  Title :: string
  SuggestionBody :: string
  Target :: string
  Metrics :: "Metric list"

definition impactOrder :: "string \<Rightarrow> int" where
  "impactOrder impact =
     (if impact = ''high'' then 0
      else if impact = ''medium'' then 1
      else if impact = ''low'' then 2
      else 3)"

text \<open>
  The ordering step of \<^verbatim>\<open>Evaluator.Evaluate\<close> calls \<^verbatim>\<open>sort.Slice\<close> of Go's standard library
  with the comparison below. The library function is not part of the repository: it is a
  parameter of the step.
\<close>

definition impact_less :: "Suggestion \<Rightarrow> Suggestion \<Rightarrow> bool" where
  "impact_less a b = (impactOrder (Impact a) < impactOrder (Impact b))"

definition sortByImpact ::
    "((Suggestion \<Rightarrow> Suggestion \<Rightarrow> bool) \<Rightarrow> Suggestion list \<Rightarrow> Suggestion list)
      \<Rightarrow> Suggestion list \<Rightarrow> Suggestion list" where
  "sortByImpact sortSlice suggestions = sortSlice impact_less suggestions"

text \<open>
  \<^verbatim>\<open>deduplicateSuggestions\<close>: the map \<^verbatim>\<open>seen\<close> only ever stores \<^verbatim>\<open>true\<close>, so it is the set of
  its keys.
\<close>

definition dedup_key :: "Suggestion \<Rightarrow> string" where
  "dedup_key s = RuleID s @ '':'' @ Target s"

fun dedup_loop :: "Suggestion list \<Rightarrow> string set \<Rightarrow> Suggestion list \<Rightarrow> Suggestion list" where
  "dedup_loop [] seen result = result"
| "dedup_loop (s # rest) seen result =
     (let key = dedup_key s
      in if key \<notin> seen then dedup_loop rest (insert key seen) (result @ [s])
         else dedup_loop rest seen result)"

definition deduplicateSuggestions :: "Suggestion list \<Rightarrow> Suggestion list" where
  "deduplicateSuggestions suggestions = dedup_loop suggestions {} []"

text \<open>The pair the specification deduplicates by.\<close>

definition rule_target :: "Suggestion \<Rightarrow> string \<times> string" where
  "rule_target s = (RuleID s, Target s)"

text \<open>A suggestion of impact \<open>high\<close> with the given rule id, target and title, for examples.\<close>

definition sug :: "string \<Rightarrow> string \<Rightarrow> string \<Rightarrow> Suggestion" where
  "sug r t ttl = \<lparr> ID = '''', RuleID = r, Type = ''info'', Impact = ''high'', Title = ttl,
      SuggestionBody = '''', Target = t, Metrics = [] \<rparr>"

text \<open>A suggestion with the given rule id and impact, for examples.\<close>

definition sugI :: "string \<Rightarrow> string \<Rightarrow> Suggestion" where
  "sugI r i = (sug r ''//t'' ''title'') \<lparr> Impact := i \<rparr>"

section \<open>The fact builder\<close>

text \<open>
  A trace event. The argument map holds decoded JSON: a string, a number, a boolean or
  something else (a list, an object); a key that is absent or \<^verbatim>\<open>null\<close> reads as \<^verbatim>\<open>nil\<close>,
  here \<open>None\<close>.
\<close>

datatype ArgValue = ArgString string | ArgNumber real | ArgBool bool | ArgOther

record TraceEvent =
  Name :: string
  Cat :: string
  Ph :: string
  Ts :: real
  Dur :: real
  Pid :: int
  Tid :: int
  Args :: "string \<Rightarrow> ArgValue option"

record Fact =
  Predicate :: string
  Args :: "Value list"

definition isActionableCategory :: "string \<Rightarrow> bool" where
  "isActionableCategory cat =
     (if cat = ''action processing'' \<or> cat = ''complete action execution'' then True
      else if cat = ''Fetching repository'' then True
      else if cat = ''package creation'' then True
      else False)"

definition isSystemCategory :: "string \<Rightarrow> bool" where
  "isSystemCategory cat =
     (if cat \<in> {''general information'', ''build phase marker'', ''gc notification'',
                 ''skyframe evaluator'', ''action count (local)'', ''critical path component'',
                 ''Conflict checking'', ''bazel module processing''} then True
      else False)"

text \<open>
  \<^verbatim>\<open>e.Args["mnemonic"].(string)\<close>, and \<^verbatim>\<open>e.Args["target"].(string)\<close> with the test
  \<^verbatim>\<open>target != ""\<close> that follows it everywhere.
\<close>

definition mnemonic_of :: "TraceEvent \<Rightarrow> string option" where
  "mnemonic_of e = (case TraceEvent.Args e ''mnemonic'' of Some (ArgString m) \<Rightarrow> Some m | _ \<Rightarrow> None)"

definition target_of :: "TraceEvent \<Rightarrow> string option" where
  "target_of e =
     (case TraceEvent.Args e ''target'' of
        Some (ArgString t) \<Rightarrow> if t \<noteq> '''' then Some t else None
      | _ \<Rightarrow> None)"

definition isActionable :: "TraceEvent \<Rightarrow> bool" where
  "isActionable e =
     (let hasTarget = (target_of e \<noteq> None)
      in hasTarget \<or> (isActionableCategory (Cat e) \<and> TraceEvent.Args e ''mnemonic'' \<noteq> None))"

text \<open>The facts the first pass appends for the event of index \<open>i\<close>.\<close>

definition event_facts :: "nat \<Rightarrow> TraceEvent \<Rightarrow> Fact list" where
  "event_facts i e =
     [\<lparr>Predicate = ''trace_event'',
        Args = [VInt (int i), VString (Name e), VString (Cat e), VFloat (Ts e), VFloat (Dur e)]\<rparr>,
      \<lparr>Predicate = ''trace_event_tid'', Args = [VInt (int i), VInt (Tid e)]\<rparr>,
      \<lparr>Predicate = ''trace_event_pid'', Args = [VInt (int i), VInt (Pid e)]\<rparr>]
     @ (case mnemonic_of e of
          Some mnemonic \<Rightarrow>
            [\<lparr>Predicate = ''trace_event_mnemonic'', Args = [VInt (int i), VString mnemonic]\<rparr>]
        | None \<Rightarrow> [])
     @ (case target_of e of
          Some target \<Rightarrow>
            [\<lparr>Predicate = ''trace_event_target'', Args = [VInt (int i), VString target]\<rparr>,
             \<lparr>Predicate = ''has_target'', Args = [VInt (int i)]\<rparr>]
        | None \<Rightarrow> [])
     @ (if isActionable e then [\<lparr>Predicate = ''is_actionable'', Args = [VInt (int i)]\<rparr>] else [])
     @ (if isSystemCategory (Cat e) then [\<lparr>Predicate = ''is_system'', Args = [VInt (int i)]\<rparr>]
        else [])"

record Totals =
  acc_totalDuration :: real
  acc_maxEnd :: real
  acc_actionableTime :: real
  acc_actionableCount :: int

fun first_pass :: "nat \<Rightarrow> TraceEvent list \<Rightarrow> Fact list \<Rightarrow> Totals \<Rightarrow> Fact list \<times> Totals" where
  "first_pass i [] facts tot = (facts, tot)"
| "first_pass i (e # es) facts tot =
     (let facts' = facts @ event_facts i e;
          tot1 = (if isActionable e
                  then tot\<lparr>acc_actionableTime := acc_actionableTime tot + Dur e,
                           acc_actionableCount := acc_actionableCount tot + 1\<rparr>
                  else tot);
          end = Ts e + Dur e;
          tot2 = (if end > acc_maxEnd tot1 then tot1\<lparr>acc_maxEnd := end\<rparr> else tot1);
          tot3 = tot2\<lparr>acc_totalDuration := acc_totalDuration tot2 + Dur e\<rparr>
      in first_pass (i + 1) es facts' tot3)"

text \<open>
  A Go map from strings, as the list of its entries in the order the keys were first
  written. \<open>map_add_to\<close> is \<^verbatim>\<open>m[k] += v\<close>, a missing key reading as zero. Go iterates a map in
  an order it does not specify: the order of the grouped facts below is one of the orders
  the program can produce.
\<close>

fun map_add_to :: "string \<Rightarrow> 'a::monoid_add \<Rightarrow> (string \<times> 'a) list \<Rightarrow> (string \<times> 'a) list" where
  "map_add_to k v [] = [(k, 0 + v)]"
| "map_add_to k v ((k', w) # m) =
     (if k = k' then (k', w + v) # m else (k', w) # map_add_to k v m)"

fun categoryTime :: "TraceEvent list \<Rightarrow> (string \<times> real) list \<Rightarrow> (string \<times> real) list" where
  "categoryTime [] m = m"
| "categoryTime (e # es) m = categoryTime es (map_add_to (Cat e) (Dur e) m)"

fun categoryCount :: "TraceEvent list \<Rightarrow> (string \<times> int) list \<Rightarrow> (string \<times> int) list" where
  "categoryCount [] m = m"
| "categoryCount (e # es) m = categoryCount es (map_add_to (Cat e) 1 m)"

fun mnemonicTime :: "TraceEvent list \<Rightarrow> (string \<times> real) list \<Rightarrow> (string \<times> real) list" where
  "mnemonicTime [] m = m"
| "mnemonicTime (e # es) m =
     mnemonicTime es
       (case mnemonic_of e of
          Some mnemonic \<Rightarrow>
            (case target_of e of Some target \<Rightarrow> map_add_to mnemonic (Dur e) m | None \<Rightarrow> m)
        | None \<Rightarrow> m)"

fun mnemonicCount :: "TraceEvent list \<Rightarrow> (string \<times> int) list \<Rightarrow> (string \<times> int) list" where
  "mnemonicCount [] m = m"
| "mnemonicCount (e # es) m =
     mnemonicCount es
       (case mnemonic_of e of
          Some mnemonic \<Rightarrow>
            (case target_of e of Some target \<Rightarrow> map_add_to mnemonic 1 m | None \<Rightarrow> m)
        | None \<Rightarrow> m)"

fun targetTime :: "TraceEvent list \<Rightarrow> (string \<times> real) list \<Rightarrow> (string \<times> real) list" where
  "targetTime [] m = m"
| "targetTime (e # es) m =
     targetTime es (case target_of e of Some target \<Rightarrow> map_add_to target (Dur e) m | None \<Rightarrow> m)"

fun targetCount :: "TraceEvent list \<Rightarrow> (string \<times> int) list \<Rightarrow> (string \<times> int) list" where
  "targetCount [] m = m"
| "targetCount (e # es) m =
     targetCount es (case target_of e of Some target \<Rightarrow> map_add_to target 1 m | None \<Rightarrow> m)"

text \<open>
  The two sorts of the fact builder are the same pair of loops:
  \<^verbatim>\<open>for i := 0; i < len(a)-1; i++ { for j := i+1; j < len(a); j++ { if C(a[i], a[j]) { swap } } }\<close>.
  \<open>exchange_inner\<close> is the loop on \<open>j\<close>, \<open>exchange_outer\<close> the loop on \<open>i\<close>, and the
  condition \<open>C\<close> of the exchange is their first argument.
\<close>

function exchange_inner :: "('a \<Rightarrow> 'a \<Rightarrow> bool) \<Rightarrow> nat \<Rightarrow> nat \<Rightarrow> 'a list \<Rightarrow> 'a list" where
  "exchange_inner C i j a =
     (if j < length a
      then exchange_inner C i (j + 1) (if C (a ! i) (a ! j) then a[i := a ! j, j := a ! i] else a)
      else a)"
  by pat_completeness auto
termination
  by (relation "measure (\<lambda>(C, i, j, a). length a - j)") auto

declare exchange_inner.simps [simp del]

lemma length_exchange_inner: "length (exchange_inner C i j a) = length a"
  by (induction C i j a rule: exchange_inner.induct) (subst exchange_inner.simps, simp)

function exchange_outer :: "('a \<Rightarrow> 'a \<Rightarrow> bool) \<Rightarrow> nat \<Rightarrow> 'a list \<Rightarrow> 'a list" where
  "exchange_outer C i a =
     (if i + 1 < length a then exchange_outer C (i + 1) (exchange_inner C i (i + 1) a) else a)"
  by pat_completeness auto
termination
  by (relation "measure (\<lambda>(C, i, a). length a - i)") (auto simp: length_exchange_inner)

declare exchange_outer.simps [simp del]

definition exchange_sort :: "('a \<Rightarrow> 'a \<Rightarrow> bool) \<Rightarrow> 'a list \<Rightarrow> 'a list" where
  "exchange_sort C a = exchange_outer C 0 a"

subsection \<open>Maximum concurrency\<close>

record timePoint =
  time :: real
  isStart :: bool

text \<open>
  The end point \<^verbatim>\<open>e.Ts + e.Dur\<close> is a sum of \<^verbatim>\<open>float64\<close>; the sort compares it with the
  start points, so it is kept as the rounded sum.
\<close>

definition event_end :: "GoLib \<Rightarrow> TraceEvent \<Rightarrow> real" where
  "event_end L e = add_float64 L (Ts e) (Dur e)"

fun event_points :: "GoLib \<Rightarrow> TraceEvent list \<Rightarrow> timePoint list" where
  "event_points L [] = []"
| "event_points L (e # es) =
     \<lparr>time = Ts e, isStart = True\<rparr> # \<lparr>time = event_end L e, isStart = False\<rparr>
       # event_points L es"

text \<open>The condition under which the sort exchanges \<^verbatim>\<open>points[i]\<close> and \<^verbatim>\<open>points[j]\<close>.\<close>

definition point_after :: "timePoint \<Rightarrow> timePoint \<Rightarrow> bool" where
  "point_after p q = (time p > time q \<or> (time p = time q \<and> \<not> isStart p \<and> isStart q))"

fun sweep :: "timePoint list \<Rightarrow> int \<Rightarrow> int \<Rightarrow> int" where
  "sweep [] maxConcurrent current = maxConcurrent"
| "sweep (p # ps) maxConcurrent current =
     (if isStart p
      then (let current' = current + 1
            in sweep ps (if current' > maxConcurrent then current' else maxConcurrent) current')
      else sweep ps maxConcurrent (current - 1))"

definition computeMaxConcurrency :: "GoLib \<Rightarrow> TraceEvent list \<Rightarrow> int" where
  "computeMaxConcurrency L events =
     (if length events = 0 then 0
      else sweep (exchange_sort point_after (event_points L events)) 0 0)"

subsection \<open>Critical path\<close>

fun max_end :: "TraceEvent list \<Rightarrow> real \<Rightarrow> real" where
  "max_end [] maxEnd = maxEnd"
| "max_end (e # es) maxEnd =
     (let end = Ts e + Dur e in max_end es (if end > maxEnd then end else maxEnd))"

fun last_actionable ::
    "nat \<Rightarrow> TraceEvent list \<Rightarrow> (nat \<times> TraceEvent) option \<Rightarrow> real \<Rightarrow> (nat \<times> TraceEvent) option" where
  "last_actionable i [] lastActionableEvent lastActionableEnd = lastActionableEvent"
| "last_actionable i (e # es) lastActionableEvent lastActionableEnd =
     (case target_of e of
        Some target \<Rightarrow>
          (let end = Ts e + Dur e
           in if end > lastActionableEnd then last_actionable (i + 1) es (Some (i, e)) end
              else last_actionable (i + 1) es lastActionableEvent lastActionableEnd)
      | None \<Rightarrow> last_actionable (i + 1) es lastActionableEvent lastActionableEnd)"

record actionableEvent =
  idx :: nat
  duration :: real
  name :: string
  target :: string

fun actionableEvents :: "nat \<Rightarrow> TraceEvent list \<Rightarrow> actionableEvent list" where
  "actionableEvents i [] = []"
| "actionableEvents i (e # es) =
     (case target_of e of
        Some t \<Rightarrow> \<lparr>idx = i, duration = Dur e, name = Name e, target = t\<rparr> # actionableEvents (i + 1) es
      | None \<Rightarrow> actionableEvents (i + 1) es)"

definition computeCriticalPath :: "TraceEvent list \<Rightarrow> Fact list" where
  "computeCriticalPath events =
     (if length events = 0 then []
      else
        let maxEnd = max_end events 0;
            endFacts =
              (case last_actionable 0 events None 0 of
                 None \<Rightarrow> []
               | Some (lastIdx, lastEvent) \<Rightarrow>
                   (let target = (case TraceEvent.Args lastEvent ''target'' of
                                    Some (ArgString t) \<Rightarrow> t | _ \<Rightarrow> '''')
                    in [\<lparr>Predicate = ''critical_path_end'',
                          Args = [VInt (int lastIdx), VString (Name lastEvent),
                                  VFloat (Dur lastEvent), VString target]\<rparr>]
                       @ (if maxEnd > 0
                          then [\<lparr>Predicate = ''critical_path_percent'',
                                  Args = [VFloat ((Dur lastEvent / maxEnd) * 100)]\<rparr>]
                          else [])));
            sortedEvents = exchange_sort (\<lambda>a b. duration a < duration b) (actionableEvents 0 events)
        in endFacts
           @ map (\<lambda>e. let pct = (if maxEnd > 0 then (duration e / maxEnd) * 100 else 0)
                       in \<lparr>Predicate = ''potential_bottleneck'',
                           Args = [VInt (int (idx e)), VString (name e), VFloat (duration e),
                                   VFloat pct, VString (target e)]\<rparr>)
                 (take 5 sortedEvents))"

subsection \<open>GenerateFacts\<close>

definition GenerateFacts :: "GoLib \<Rightarrow> TraceEvent list \<Rightarrow> Fact list" where
  "GenerateFacts L events =
     (let (facts, tot) =
            first_pass 0 events []
              \<lparr>acc_totalDuration = 0, acc_maxEnd = 0, acc_actionableTime = 0, acc_actionableCount = 0\<rparr>;
          facts = facts @
            [\<lparr>Predicate = ''total_duration'', Args = [VFloat (acc_maxEnd tot)]\<rparr>,
             \<lparr>Predicate = ''total_action_time'', Args = [VFloat (acc_totalDuration tot)]\<rparr>,
             \<lparr>Predicate = ''total_actions'', Args = [VInt (int (length events))]\<rparr>,
             \<lparr>Predicate = ''actionable_time'', Args = [VFloat (acc_actionableTime tot)]\<rparr>,
             \<lparr>Predicate = ''actionable_count'', Args = [VInt (acc_actionableCount tot)]\<rparr>];
          facts = facts
            @ map (\<lambda>(cat, time). \<lparr>Predicate = ''category_time'', Args = [VString cat, VFloat time]\<rparr>)
                (categoryTime events [])
            @ map (\<lambda>(cat, count). \<lparr>Predicate = ''category_count'', Args = [VString cat, VInt count]\<rparr>)
                (categoryCount events []);
          facts = facts
            @ map (\<lambda>(mnemonic, time).
                      \<lparr>Predicate = ''mnemonic_time'', Args = [VString mnemonic, VFloat time]\<rparr>)
                (mnemonicTime events [])
            @ map (\<lambda>(mnemonic, count).
                      \<lparr>Predicate = ''mnemonic_count'', Args = [VString mnemonic, VInt count]\<rparr>)
                (mnemonicCount events []);
          unusedTargetCount = targetCount events [];
          facts = facts
            @ map (\<lambda>(target, time). \<lparr>Predicate = ''target_time'', Args = [VString target, VFloat time]\<rparr>)
                (targetTime events []);
          facts = facts
            @ [\<lparr>Predicate = ''max_concurrency'', Args = [VInt (computeMaxConcurrency L events)]\<rparr>]
      in facts @ computeCriticalPath events)"

definition GenerateEventPercentFacts :: "TraceEvent list \<Rightarrow> real \<Rightarrow> Fact list" where
  "GenerateEventPercentFacts events totalDuration =
     concat (map (\<lambda>(i, e). if totalDuration > 0
                            then [\<lparr>Predicate = ''event_percent'',
                                    Args = [VInt (int i), VFloat ((Dur e / totalDuration) * 100)]\<rparr>]
                            else [])
                 (enumerate 0 events))"

text \<open>
  The two ways of counting the events in progress at a time \<open>t\<close>: the interval of an event
  taken half-open up to \<open>start + dur\<close>, as the specification has it, or closed up to the end
  point the program computes. \<open>is_max_over_reals f m\<close> says that \<open>m\<close> is the greatest value
  of \<open>f\<close> over the reals.
\<close>

definition half_open_count :: "TraceEvent list \<Rightarrow> real \<Rightarrow> int" where
  "half_open_count events t = int (length (filter (\<lambda>e. Ts e \<le> t \<and> t < Ts e + Dur e) events))"

definition closed_count :: "GoLib \<Rightarrow> TraceEvent list \<Rightarrow> real \<Rightarrow> int" where
  "closed_count L events t = int (length (filter (\<lambda>e. Ts e \<le> t \<and> t \<le> event_end L e) events))"

definition is_max_over_reals :: "(real \<Rightarrow> int) \<Rightarrow> int \<Rightarrow> bool" where
  "is_max_over_reals f m = ((\<forall>t. f t \<le> m) \<and> (\<exists>t. f t = m))"

text \<open>An event with a start, a duration and the given string arguments, for examples.\<close>

definition ev :: "real \<Rightarrow> real \<Rightarrow> (string \<times> string) list \<Rightarrow> TraceEvent" where
  "ev ts dur args =
     \<lparr>Name = ''Compile'', Cat = ''action processing'', Ph = ''X'', Ts = ts, Dur = dur, Pid = 1,
      Tid = 1, Args = map_option ArgString \<circ> map_of args\<rparr>"

section \<open>The abstract syntax\<close>

text \<open>
  \<^verbatim>\<open>Variable\<close>, \<^verbatim>\<open>ComparisonOp\<close>, \<^verbatim>\<open>ArithOp\<close> and \<^verbatim>\<open>AggregateOp\<close> are string types in the
  source, so an operator outside the declared constants is a value of the type, and the
  code has branches for it.
\<close>

datatype Term = Variable string | Constant Value | Wildcard

datatype Atom = Atom (Predicate: string) (Args: "Term list")

datatype Expression =
    TermExpr Term
  | BinaryExpr Expression string Expression
  | FunctionCall string "Expression list"

datatype Clause =
    AtomClause Atom
  | Comparison Term string Term
  | Assignment string Expression
  | Aggregation string string "Clause list" string
  | Negation Atom

definition OpEq :: string where "OpEq = ''=''"
definition OpNeq :: string where "OpNeq = ''!=''"
definition OpLt :: string where "OpLt = ''<''"
definition OpLte :: string where "OpLte = ''<=''"
definition OpGt :: string where "OpGt = ''>''"
definition OpGte :: string where "OpGte = ''>=''"

definition OpAdd :: string where "OpAdd = ''+''"
definition OpSub :: string where "OpSub = ''-''"
definition OpMul :: string where "OpMul = ''*''"
definition OpDiv :: string where "OpDiv = ''/''"
definition OpMod :: string where "OpMod = ''%''"

definition AggCount :: string where "AggCount = ''count''"
definition AggSum :: string where "AggSum = ''sum''"
definition AggMax :: string where "AggMax = ''max''"
definition AggMin :: string where "AggMin = ''min''"
definition AggAvg :: string where "AggAvg = ''avg''"

record Rule =
  Head :: Atom
  Body :: "Clause list"

section \<open>The engine\<close>

type_synonym Bindings = "string \<Rightarrow> Value option"

type_synonym BuiltinFunc = "Value list \<Rightarrow> error + Value"

text \<open>
  The fact store is a Go map from predicates to slices; a predicate that is not a key reads
  as the empty slice, so the store is the function that reads it.
\<close>

record Engine =
  facts :: "string \<Rightarrow> Fact list"
  rules :: "Rule list"
  builtins :: "string \<Rightarrow> BuiltinFunc option"

definition AddFact :: "Engine \<Rightarrow> Fact \<Rightarrow> Engine" where
  "AddFact e f = e\<lparr>facts := (facts e)(Fact.Predicate f := facts e (Fact.Predicate f) @ [f])\<rparr>"

definition AddFacts :: "Engine \<Rightarrow> Fact list \<Rightarrow> Engine" where
  "AddFacts e fs = foldl AddFact e fs"

definition AddRule :: "Engine \<Rightarrow> Rule \<Rightarrow> Engine" where
  "AddRule e r = e\<lparr>rules := rules e @ [r]\<rparr>"

definition valuesEqual :: "GoLib \<Rightarrow> Value \<Rightarrow> Value \<Rightarrow> bool" where
  "valuesEqual L a b =
     (let (aNum, aOk) = toFloat64NoErr a; (bNum, bOk) = toFloat64NoErr b
      in if aOk \<and> bOk then aNum = bNum else Sprint L a = Sprint L b)"

fun args_equal :: "GoLib \<Rightarrow> Value list \<Rightarrow> Value list \<Rightarrow> bool" where
  "args_equal L (x # xs) (y # ys) = (if \<not> valuesEqual L x y then False else args_equal L xs ys)"
| "args_equal L xs ys = True"

definition factsEqual :: "GoLib \<Rightarrow> Fact \<Rightarrow> Fact \<Rightarrow> bool" where
  "factsEqual L a b =
     (if Fact.Predicate a \<noteq> Fact.Predicate b \<or> length (Fact.Args a) \<noteq> length (Fact.Args b)
      then False
      else args_equal L (Fact.Args a) (Fact.Args b))"

fun fact_in :: "GoLib \<Rightarrow> Fact list \<Rightarrow> Fact \<Rightarrow> bool" where
  "fact_in L [] fct = False"
| "fact_in L (f # fs) fct = (if factsEqual L f fct then True else fact_in L fs fct)"

definition factExists :: "GoLib \<Rightarrow> Engine \<Rightarrow> Fact \<Rightarrow> bool" where
  "factExists L e fct = fact_in L (facts e (Fact.Predicate fct)) fct"

text \<open>
  \<^verbatim>\<open>compareValues\<close>. The numeric \<^verbatim>\<open>switch\<close> has no default: with an operator it does not
  know it falls through to the comparison of the printed strings, whose default is the
  error. Go compares strings byte by byte.
\<close>

definition compare_strings :: "string \<Rightarrow> string \<Rightarrow> string \<Rightarrow> error + bool" where
  "compare_strings leftStr rightStr op =
     (if op = OpEq then Inr (leftStr = rightStr)
      else if op = OpNeq then Inr (leftStr \<noteq> rightStr)
      else if op = OpLt then Inr (leftStr < rightStr)
      else if op = OpLte then Inr (leftStr \<le> rightStr)
      else if op = OpGt then Inr (leftStr > rightStr)
      else if op = OpGte then Inr (leftStr \<ge> rightStr)
      else Inl (Errorf (''unknown comparison operator: '' @ op)))"

definition compareValues :: "GoLib \<Rightarrow> Value \<Rightarrow> Value \<Rightarrow> string \<Rightarrow> error + bool" where
  "compareValues L left right op =
     (let (leftNum, leftOk) = toFloat64NoErr left; (rightNum, rightOk) = toFloat64NoErr right
      in if leftOk \<and> rightOk \<and> op = OpEq then Inr (leftNum = rightNum)
         else if leftOk \<and> rightOk \<and> op = OpNeq then Inr (leftNum \<noteq> rightNum)
         else if leftOk \<and> rightOk \<and> op = OpLt then Inr (leftNum < rightNum)
         else if leftOk \<and> rightOk \<and> op = OpLte then Inr (leftNum \<le> rightNum)
         else if leftOk \<and> rightOk \<and> op = OpGt then Inr (leftNum > rightNum)
         else if leftOk \<and> rightOk \<and> op = OpGte then Inr (leftNum \<ge> rightNum)
         else compare_strings (Sprint L left) (Sprint L right) op)"

fun resolveTerm :: "Term \<Rightarrow> Bindings \<Rightarrow> error + Value" where
  "resolveTerm (Variable t) bindings =
     (case bindings t of
        Some val \<Rightarrow> Inr val
      | None \<Rightarrow> Inl (Errorf (''unbound variable: '' @ t)))"
| "resolveTerm (Constant v) bindings = Inr v"
| "resolveTerm Wildcard bindings = Inl (Errorf ''cannot resolve wildcard'')"

text \<open>
  \<^verbatim>\<open>evaluateExpression\<close>; \<open>evaluateArgs\<close> is its loop over the arguments of a call, which
  returns at the first argument that fails.
\<close>

fun evaluateExpression :: "GoLib \<Rightarrow> Engine \<Rightarrow> Expression \<Rightarrow> Bindings \<Rightarrow> error + Value"
  and evaluateArgs :: "GoLib \<Rightarrow> Engine \<Rightarrow> Expression list \<Rightarrow> Bindings \<Rightarrow> error + Value list"
where
  "evaluateExpression L e (TermExpr t) bindings = resolveTerm t bindings"
| "evaluateExpression L e (BinaryExpr exLeft op exRight) bindings =
     (case evaluateExpression L e exLeft bindings of
        Inl err \<Rightarrow> Inl err
      | Inr leftVal \<Rightarrow>
     (case evaluateExpression L e exRight bindings of
        Inl err \<Rightarrow> Inl err
      | Inr rightVal \<Rightarrow>
     (case toFloat64 leftVal of
        Inl err \<Rightarrow> Inl err
      | Inr left \<Rightarrow>
     (case toFloat64 rightVal of
        Inl err \<Rightarrow> Inl err
      | Inr right \<Rightarrow>
          if op = OpAdd then Inr (VFloat (left + right))
          else if op = OpSub then Inr (VFloat (left - right))
          else if op = OpMul then Inr (VFloat (left * right))
          else if op = OpDiv then
            (if right = 0 then Inl (Errorf ''division by zero'')
             else Inr (VFloat (left / right)))
          else if op = OpMod then Inr (VFloat (math_Mod L left right))
          else Inl (Errorf (''unknown operator: '' @ op))))))"
| "evaluateExpression L e (FunctionCall fname exArgs) bindings =
     (case builtins e fname of
        None \<Rightarrow> Inl (Errorf (''unknown function: '' @ fname))
      | Some fn \<Rightarrow>
          (case evaluateArgs L e exArgs bindings of
             Inl err \<Rightarrow> Inl err
           | Inr args \<Rightarrow> fn args))"
| "evaluateArgs L e [] bindings = Inr []"
| "evaluateArgs L e (arg # rest) bindings =
     (case evaluateExpression L e arg bindings of
        Inl err \<Rightarrow> Inl err
      | Inr val \<Rightarrow>
          (case evaluateArgs L e rest bindings of
             Inl err \<Rightarrow> Inl err
           | Inr vals \<Rightarrow> Inr (val # vals)))"

text \<open>
  The loop of \<^verbatim>\<open>evaluateAtom\<close> over the arguments of the atom. Its \<^verbatim>\<open>break\<close> leaves the
  \<^verbatim>\<open>switch\<close>, not the loop: after a mismatch the remaining arguments are still visited, with
  \<open>match\<close> false.
\<close>

fun match_args :: "GoLib \<Rightarrow> Term list \<Rightarrow> Value list \<Rightarrow> Bindings \<Rightarrow> bool \<Rightarrow> Bindings \<times> bool" where
  "match_args L (arg # args) (factVal # factVals) newBindings match =
     (case arg of
        Variable a \<Rightarrow>
          (case newBindings a of
             Some existing \<Rightarrow>
               if \<not> valuesEqual L existing factVal
               then match_args L args factVals newBindings False
               else match_args L args factVals newBindings match
           | None \<Rightarrow> match_args L args factVals (newBindings(a \<mapsto> factVal)) match)
      | Constant v \<Rightarrow>
          if \<not> valuesEqual L v factVal
          then match_args L args factVals newBindings False
          else match_args L args factVals newBindings match
      | Wildcard \<Rightarrow> match_args L args factVals newBindings match)"
| "match_args L args factVals newBindings match = (newBindings, match)"

fun match_facts :: "GoLib \<Rightarrow> Atom \<Rightarrow> Fact list \<Rightarrow> Bindings \<Rightarrow> Bindings list" where
  "match_facts L atom [] bindings = []"
| "match_facts L atom (fct # rest) bindings =
     (if length (Fact.Args fct) \<noteq> length (Args atom) then match_facts L atom rest bindings
      else
        (let (newBindings, match) = match_args L (Args atom) (Fact.Args fct) bindings True
         in if match then newBindings # match_facts L atom rest bindings
            else match_facts L atom rest bindings))"

definition evaluateAtom :: "GoLib \<Rightarrow> Engine \<Rightarrow> Atom \<Rightarrow> Bindings \<Rightarrow> error + Bindings list" where
  "evaluateAtom L e atom bindings = Inr (match_facts L atom (facts e (Predicate atom)) bindings)"

text \<open>A term that does not resolve gives no match, not an error.\<close>

definition evaluateComparison ::
    "GoLib \<Rightarrow> Term \<Rightarrow> string \<Rightarrow> Term \<Rightarrow> Bindings \<Rightarrow> error + Bindings list" where
  "evaluateComparison L compLeft op compRight bindings =
     (case resolveTerm compLeft bindings of
        Inl err \<Rightarrow> Inr []
      | Inr leftVal \<Rightarrow>
          (case resolveTerm compRight bindings of
             Inl err \<Rightarrow> Inr []
           | Inr rightVal \<Rightarrow>
               (case compareValues L leftVal rightVal op of
                  Inl err \<Rightarrow> Inl err
                | Inr result \<Rightarrow> if result then Inr [bindings] else Inr [])))"

text \<open>
  An error of the expression gives no match (\<^verbatim>\<open>return nil, nil\<close>); a panic of a built-in is
  not an error value and is not caught.
\<close>

definition evaluateAssignment ::
    "GoLib \<Rightarrow> Engine \<Rightarrow> string \<Rightarrow> Expression \<Rightarrow> Bindings \<Rightarrow> error + Bindings list" where
  "evaluateAssignment L e var ex bindings =
     (case evaluateExpression L e ex bindings of
        Inl (Errorf msg) \<Rightarrow> Inr []
      | Inl (Panic msg) \<Rightarrow> Inl (Panic msg)
      | Inr val \<Rightarrow> Inr [bindings(var \<mapsto> val)])"

definition evaluateNegation :: "GoLib \<Rightarrow> Engine \<Rightarrow> Atom \<Rightarrow> Bindings \<Rightarrow> error + Bindings list" where
  "evaluateNegation L e atom bindings =
     (case evaluateAtom L e atom bindings of
        Inl err \<Rightarrow> Inl err
      | Inr matches \<Rightarrow> if length matches = 0 then Inr [bindings] else Inr [])"

text \<open>The values an aggregation collects from the bindings of its body.\<close>

fun collect_values :: "string \<Rightarrow> string \<Rightarrow> Bindings list \<Rightarrow> real list" where
  "collect_values op var [] = []"
| "collect_values op var (b # bs) =
     (if op = AggCount then 1 # collect_values op var bs
      else
        (case resolveTerm (Variable var) b of
           Inl err \<Rightarrow> collect_values op var bs
         | Inr val \<Rightarrow>
             (case toFloat64 val of
                Inl err \<Rightarrow> collect_values op var bs
              | Inr numVal \<Rightarrow> numVal # collect_values op var bs)))"

text \<open>The reductions: \<open>None\<close> is the early \<^verbatim>\<open>return nil, nil\<close> on an empty list.\<close>

fun fold_max :: "real \<Rightarrow> real list \<Rightarrow> real" where
  "fold_max result [] = result"
| "fold_max result (v # vs) = fold_max (if v > result then v else result) vs"

fun fold_min :: "real \<Rightarrow> real list \<Rightarrow> real" where
  "fold_min result [] = result"
| "fold_min result (v # vs) = fold_min (if v < result then v else result) vs"

fun fold_sum :: "real \<Rightarrow> real list \<Rightarrow> real" where
  "fold_sum result [] = result"
| "fold_sum result (v # vs) = fold_sum (result + v) vs"

definition aggregate :: "string \<Rightarrow> real list \<Rightarrow> real option" where
  "aggregate op values =
     (if op = AggCount then Some (real (length values))
      else if op = AggSum then Some (fold_sum 0 values)
      else if op = AggMax then
        (if length values = 0 then None else Some (fold_max (values ! 0) (drop 1 values)))
      else if op = AggMin then
        (if length values = 0 then None else Some (fold_min (values ! 0) (drop 1 values)))
      else if op = AggAvg then
        (if length values = 0 then None else Some (fold_sum 0 values / real (length values)))
      else Some 0)"

fun evaluateClause :: "GoLib \<Rightarrow> Engine \<Rightarrow> Clause \<Rightarrow> Bindings \<Rightarrow> error + Bindings list"
  and evaluateBody :: "GoLib \<Rightarrow> Engine \<Rightarrow> Clause list \<Rightarrow> Bindings list \<Rightarrow> error + Bindings list"
  and evaluateEach :: "GoLib \<Rightarrow> Engine \<Rightarrow> Clause \<Rightarrow> Bindings list \<Rightarrow> error + Bindings list"
where
  "evaluateClause L e (AtomClause atom) bindings = evaluateAtom L e atom bindings"
| "evaluateClause L e (Comparison compLeft op compRight) bindings =
     evaluateComparison L compLeft op compRight bindings"
| "evaluateClause L e (Assignment var ex) bindings = evaluateAssignment L e var ex bindings"
| "evaluateClause L e (Aggregation op var body into) bindings =
     (case evaluateBody L e body [bindings] of
        Inl err \<Rightarrow> Inl err
      | Inr bodyBindings \<Rightarrow>
          (case aggregate op (collect_values op var bodyBindings) of
             None \<Rightarrow> Inr []
           | Some result \<Rightarrow> Inr [bindings(into \<mapsto> VFloat result)]))"
| "evaluateClause L e (Negation atom) bindings = evaluateNegation L e atom bindings"
| "evaluateBody L e [] result = Inr result"
| "evaluateBody L e (clause # clauses) result =
     (case evaluateEach L e clause result of
        Inl err \<Rightarrow> Inl err
      | Inr newBindings \<Rightarrow>
          if length newBindings = 0 then Inr newBindings
          else evaluateBody L e clauses newBindings)"
| "evaluateEach L e clause [] = Inr []"
| "evaluateEach L e clause (b # bs) =
     (case evaluateClause L e clause b of
        Inl err \<Rightarrow> Inl err
      | Inr extended \<Rightarrow>
          (case evaluateEach L e clause bs of
             Inl err \<Rightarrow> Inl err
           | Inr newBindings \<Rightarrow> Inr (extended @ newBindings)))"

fun instantiate_args :: "Term list \<Rightarrow> Bindings \<Rightarrow> error + Value list" where
  "instantiate_args [] bindings = Inr []"
| "instantiate_args (arg # rest) bindings =
     (case resolveTerm arg bindings of
        Inl err \<Rightarrow> Inl err
      | Inr val \<Rightarrow>
          (case instantiate_args rest bindings of
             Inl err \<Rightarrow> Inl err
           | Inr vals \<Rightarrow> Inr (val # vals)))"

definition instantiateAtom :: "Atom \<Rightarrow> Bindings \<Rightarrow> error + Fact" where
  "instantiateAtom atom bindings =
     (case instantiate_args (Args atom) bindings of
        Inl err \<Rightarrow> Inl err
      | Inr args \<Rightarrow> Inr \<lparr>Fact.Predicate = Predicate atom, Args = args\<rparr>)"

fun instantiate_all :: "Atom \<Rightarrow> Bindings list \<Rightarrow> Fact list" where
  "instantiate_all head [] = []"
| "instantiate_all head (b # bs) =
     (case instantiateAtom head b of
        Inl err \<Rightarrow> instantiate_all head bs
      | Inr fct \<Rightarrow> fct # instantiate_all head bs)"

definition evaluateRule :: "GoLib \<Rightarrow> Engine \<Rightarrow> Rule \<Rightarrow> error + Fact list" where
  "evaluateRule L e rule =
     (case evaluateBody L e (Body rule) [Map.empty] of
        Inl err \<Rightarrow> Inl err
      | Inr bindings \<Rightarrow> Inr (instantiate_all (Head rule) bindings))"

text \<open>The loop of \<^verbatim>\<open>Evaluate\<close> over the facts a rule derived.\<close>

fun add_derived :: "GoLib \<Rightarrow> Fact list \<Rightarrow> Engine \<Rightarrow> nat \<Rightarrow> Engine \<times> nat" where
  "add_derived L [] e newFacts = (e, newFacts)"
| "add_derived L (fct # derived) e newFacts =
     (if \<not> factExists L e fct then add_derived L derived (AddFact e fct) (newFacts + 1)
      else add_derived L derived e newFacts)"

text \<open>One pass of \<^verbatim>\<open>Evaluate\<close> over the rules.\<close>

fun evaluate_pass :: "GoLib \<Rightarrow> Rule list \<Rightarrow> Engine \<Rightarrow> nat \<Rightarrow> error + Engine \<times> nat" where
  "evaluate_pass L [] e newFacts = Inr (e, newFacts)"
| "evaluate_pass L (rule # rest) e newFacts =
     (case evaluateRule L e rule of
        Inl err \<Rightarrow> Inl err
      | Inr derived \<Rightarrow>
          (let (e', newFacts') = add_derived L derived e newFacts
           in evaluate_pass L rest e' newFacts'))"

text \<open>
  \<^verbatim>\<open>Evaluate\<close> repeats the pass until it adds no fact. Nothing bounds the number of passes:
  \<open>None\<close> is the run that never returns, \<open>Some (Inl err)\<close> the error returned, and
  \<open>Some (Inr e')\<close> the engine left by a successful run.
\<close>

partial_function (option) Evaluate :: "GoLib \<Rightarrow> Engine \<Rightarrow> (error + Engine) option" where
  "Evaluate L e =
     (case evaluate_pass L (rules e) e 0 of
        Inl err \<Rightarrow> Some (Inl err)
      | Inr (e', newFacts) \<Rightarrow> if newFacts = 0 then Some (Inr e') else Evaluate L e')"

definition EvaluateSuggestionRule ::
    "GoLib \<Rightarrow> Engine \<Rightarrow> Clause list \<Rightarrow> error + Bindings list" where
  "EvaluateSuggestionRule L e conditions = evaluateBody L e conditions [Map.empty]"

definition Query :: "GoLib \<Rightarrow> Engine \<Rightarrow> Atom \<Rightarrow> error + Bindings list" where
  "Query L e atom = evaluateAtom L e atom Map.empty"

text \<open>An engine with the two built-ins modelled above, for examples.\<close>

definition sampleBuiltins :: "GoLib \<Rightarrow> string \<Rightarrow> BuiltinFunc option" where
  "sampleBuiltins L =
     [''format_time'' \<mapsto> builtin_format_time L, ''truncate'' \<mapsto> builtin_truncate L]"

definition sampleEngine :: "Fact list \<Rightarrow> Rule list \<Rightarrow> Engine" where
  "sampleEngine fs rs =
     AddFacts \<lparr>facts = (\<lambda>p. []), rules = rs, builtins = sampleBuiltins sampleLib\<rparr> fs"

text \<open>
  The failures a clause can hand to its caller: a panic, or the error of a comparison whose
  operator is none of the six declared.
\<close>

definition operator_error :: "error \<Rightarrow> bool" where
  "operator_error err =
     (case err of
        Panic msg \<Rightarrow> True
      | Errorf msg \<Rightarrow> take 29 msg = ''unknown comparison operator: '')"

text \<open>Facts, rules and an engine for examples.\<close>

definition fact1 :: "string \<Rightarrow> Value \<Rightarrow> Fact" where
  "fact1 p v = \<lparr>Fact.Predicate = p, Args = [v]\<rparr>"

definition divRule :: Rule where
  "divRule =
     \<lparr>Head = Atom ''q'' [Variable ''?Y''],
      Body = [AtomClause (Atom ''p'' [Variable ''?X'']),
              Assignment ''?Y''
                (BinaryExpr (TermExpr (Variable ''?X'')) OpDiv (TermExpr (Constant (VInt 0))))]\<rparr>"

definition copyRule :: Rule where
  "copyRule = \<lparr>Head = Atom ''q'' [Variable ''?X''], Body = [AtomClause (Atom ''p'' [Variable ''?X''])]\<rparr>"

definition fact2 :: "string \<Rightarrow> Value \<Rightarrow> Value \<Rightarrow> Fact" where
  "fact2 p v w = \<lparr>Fact.Predicate = p, Args = [v, w]\<rparr>"

definition timesEngine :: Engine where
  "timesEngine =
     sampleEngine [fact2 ''target_time'' (VString ''//x'') (VInt 800),
                   fact2 ''target_time'' (VString ''//y'') (VFloat 200)] []"

text \<open>The predicates of the facts the builder emits.\<close>

definition builder_predicates :: "string set" where
  "builder_predicates =
     {''trace_event'', ''trace_event_tid'', ''trace_event_pid'', ''trace_event_mnemonic'',
      ''trace_event_target'', ''has_target'', ''is_actionable'', ''is_system'',
      ''total_duration'', ''total_action_time'', ''total_actions'', ''actionable_time'',
      ''actionable_count'', ''category_time'', ''category_count'', ''mnemonic_time'',
      ''mnemonic_count'', ''target_time'', ''max_concurrency'', ''critical_path_end'',
      ''critical_path_percent'', ''potential_bottleneck''}"

text \<open>
  The running sum of the sweep after the points \<open>started\<close> have been counted as possible
  starts and the points \<open>ended\<close> as possible ends.
\<close>

definition balance :: "timePoint list \<Rightarrow> timePoint list \<Rightarrow> int" where
  "balance started ended =
     int (length (filter isStart started)) - int (length (filter (\<lambda>p. \<not> isStart p) ended))"

section \<open>The parser\<close>

datatype TokenType =
    TokenEOF | TokenError
  | TokenIdent | TokenVariable | TokenString | TokenNumber | TokenWildcard
  | TokenRule | TokenWhen | TokenThen | TokenSuggestion | TokenAggregate | TokenNot
  | TokenCount | TokenSum | TokenMax | TokenMin | TokenAvg
  | TokenImplies | TokenComma | TokenDot | TokenLParen | TokenRParen
  | TokenLBracket | TokenRBracket | TokenLBrace | TokenRBrace | TokenColon
  | TokenEq | TokenNeq | TokenLt | TokenLte | TokenGt | TokenGte
  | TokenPlus | TokenMinus | TokenStar | TokenSlash | TokenPercent

fun tokenNames :: "TokenType \<Rightarrow> string" where
  "tokenNames TokenEOF = ''EOF''"
| "tokenNames TokenError = ''Error''"
| "tokenNames TokenIdent = ''Ident''"
| "tokenNames TokenVariable = ''Variable''"
| "tokenNames TokenString = ''String''"
| "tokenNames TokenNumber = ''Number''"
| "tokenNames TokenWildcard = ''Wildcard''"
| "tokenNames TokenRule = ''rule''"
| "tokenNames TokenWhen = ''when''"
| "tokenNames TokenThen = ''then''"
| "tokenNames TokenSuggestion = ''suggestion''"
| "tokenNames TokenAggregate = ''aggregate''"
| "tokenNames TokenNot = ''not''"
| "tokenNames TokenCount = ''count''"
| "tokenNames TokenSum = ''sum''"
| "tokenNames TokenMax = ''max''"
| "tokenNames TokenMin = ''min''"
| "tokenNames TokenAvg = ''avg''"
| "tokenNames TokenImplies = '':-''"
| "tokenNames TokenComma = '',''"
| "tokenNames TokenDot = ''.''"
| "tokenNames TokenLParen = ''(''"
| "tokenNames TokenRParen = '')''"
| "tokenNames TokenLBracket = ''[''"
| "tokenNames TokenRBracket = '']''"
| "tokenNames TokenLBrace = ''{''"
| "tokenNames TokenRBrace = ''}''"
| "tokenNames TokenColon = '':''"
| "tokenNames TokenEq = ''=''"
| "tokenNames TokenNeq = ''!=''"
| "tokenNames TokenLt = ''<''"
| "tokenNames TokenLte = ''<=''"
| "tokenNames TokenGt = ''>''"
| "tokenNames TokenGte = ''>=''"
| "tokenNames TokenPlus = ''+''"
| "tokenNames TokenMinus = ''-''"
| "tokenNames TokenStar = ''*''"
| "tokenNames TokenSlash = ''/''"
| "tokenNames TokenPercent = ''%''"

record Token =
  Type :: TokenType
  Value :: string
  Line :: int
  Column :: int

text \<open>
  The parser holds the token slice and a position that only grows; it reads the slice at
  the position (\<^verbatim>\<open>peek\<close>) or after it (\<^verbatim>\<open>peekN\<close>) and finds the token \<^verbatim>\<open>EOF\<close> wherever the slice
  has ended. Its state is modelled by the tokens from the position on.
\<close>

definition eofToken :: Token where
  "eofToken = \<lparr>Type = TokenEOF, Value = '''', Line = 0, Column = 0\<rparr>"

definition peek :: "Token list \<Rightarrow> Token" where
  "peek ts = (case ts of [] \<Rightarrow> eofToken | tok # rest \<Rightarrow> tok)"

definition peekN :: "nat \<Rightarrow> Token list \<Rightarrow> Token" where
  "peekN n ts = (if n \<ge> length ts then eofToken else ts ! n)"

definition advance :: "Token list \<Rightarrow> Token list" where
  "advance ts = drop 1 ts"

definition expect :: "TokenType \<Rightarrow> Token list \<Rightarrow> error + Token \<times> Token list" where
  "expect typ ts =
     (let tok = peek ts
      in if Type tok \<noteq> typ
         then Inl (Errorf (''expected '' @ tokenNames typ @ '', got '' @ tokenNames (Type tok)
                           @ '' at '' @ show_int (Line tok) @ '':'' @ show_int (Column tok)))
         else Inr (tok, advance ts))"

definition match :: "TokenType \<Rightarrow> Token list \<Rightarrow> bool \<times> Token list" where
  "match typ ts = (if Type (peek ts) = typ then (True, advance ts) else (False, ts))"

definition parseTerm :: "GoLib \<Rightarrow> Token list \<Rightarrow> error + Term \<times> Token list" where
  "parseTerm L ts =
     (let tok = peek ts
      in case Type tok of
           TokenVariable \<Rightarrow> Inr (Variable (Value tok), advance ts)
         | TokenWildcard \<Rightarrow> Inr (Wildcard, advance ts)
         | TokenString \<Rightarrow> Inr (Constant (VString (Value tok)), advance ts)
         | TokenNumber \<Rightarrow>
             (case ParseInt L (Value tok) of
                Some val \<Rightarrow> Inr (Constant (VInt val), advance ts)
              | None \<Rightarrow>
                  (case ParseFloat L (Value tok) of
                     Some val \<Rightarrow> Inr (Constant (VFloat val), advance ts)
                   | None \<Rightarrow> Inl (Errorf (''invalid number: '' @ Value tok))))
         | TokenIdent \<Rightarrow>
             (if Value tok = ''true'' then Inr (Constant (VBool True), advance ts)
              else if Value tok = ''false'' then Inr (Constant (VBool False), advance ts)
              else Inr (Constant (VString (Value tok)), advance ts))
         | _ \<Rightarrow>
             Inl (Errorf (''expected term, got '' @ tokenNames (Type tok) @ '' at ''
                          @ show_int (Line tok) @ '':'' @ show_int (Column tok))))"

lemma parseTerm_shorter: "parseTerm L ts = Inr (t, ts') \<Longrightarrow> length ts' < length ts"
  by (cases ts)
     (auto simp: parseTerm_def peek_def eofToken_def advance_def Let_def
           split: TokenType.splits option.splits if_splits)

lemma match_shorter: "match typ ts = (m, ts') \<Longrightarrow> length ts' \<le> length ts"
  by (auto simp: match_def advance_def split: if_splits)

text \<open>The loop of \<^verbatim>\<open>parseAtom\<close> over the arguments.\<close>

function atom_args :: "GoLib \<Rightarrow> Token list \<Rightarrow> Term list \<Rightarrow> error + Term list \<times> Token list" where
  "atom_args L ts args =
     (if Type (peek ts) \<noteq> TokenRParen then
        (case parseTerm L ts of
           Inl err \<Rightarrow> Inl err
         | Inr (term, ts1) \<Rightarrow>
             (case match TokenComma ts1 of
                (matched, ts2) \<Rightarrow>
                  if \<not> matched then Inr (args @ [term], ts2)
                  else atom_args L ts2 (args @ [term])))
      else Inr (args, ts))"
  by pat_completeness auto
termination
  by (relation "measure (\<lambda>(L, ts, args). length ts)")
     (auto dest!: parseTerm_shorter dest: match_shorter [OF sym])

declare atom_args.simps [simp del]

definition parseAtom :: "GoLib \<Rightarrow> Token list \<Rightarrow> error + Atom \<times> Token list" where
  "parseAtom L ts =
     (case expect TokenIdent ts of
        Inl err \<Rightarrow> Inl err
      | Inr (predTok, ts1) \<Rightarrow>
     (case expect TokenLParen ts1 of
        Inl err \<Rightarrow> Inl err
      | Inr (lp, ts2) \<Rightarrow>
     (case atom_args L ts2 [] of
        Inl err \<Rightarrow> Inl err
      | Inr (args, ts3) \<Rightarrow>
     (case expect TokenRParen ts3 of
        Inl err \<Rightarrow> Inl err
      | Inr (rp, ts4) \<Rightarrow> Inr (Atom (Value predTok) args, ts4)))))"

definition isComparisonOp :: "TokenType \<Rightarrow> bool" where
  "isComparisonOp typ = (typ \<in> {TokenEq, TokenNeq, TokenLt, TokenLte, TokenGt, TokenGte})"

definition tokenToComparisonOp :: "TokenType \<Rightarrow> error + string" where
  "tokenToComparisonOp typ =
     (case typ of
        TokenEq \<Rightarrow> Inr OpEq
      | TokenNeq \<Rightarrow> Inr OpNeq
      | TokenLt \<Rightarrow> Inr OpLt
      | TokenLte \<Rightarrow> Inr OpLte
      | TokenGt \<Rightarrow> Inr OpGt
      | TokenGte \<Rightarrow> Inr OpGte
      | _ \<Rightarrow> Inl (Errorf (''expected comparison operator, got '' @ tokenNames typ)))"

definition tokenToAggregateOp :: "TokenType \<Rightarrow> error + string" where
  "tokenToAggregateOp typ =
     (case typ of
        TokenCount \<Rightarrow> Inr AggCount
      | TokenSum \<Rightarrow> Inr AggSum
      | TokenMax \<Rightarrow> Inr AggMax
      | TokenMin \<Rightarrow> Inr AggMin
      | TokenAvg \<Rightarrow> Inr AggAvg
      | _ \<Rightarrow> Inl (Errorf (''expected aggregate operator, got '' @ tokenNames typ)))"

definition parseComparison :: "GoLib \<Rightarrow> Token list \<Rightarrow> error + Clause \<times> Token list" where
  "parseComparison L ts =
     (case parseTerm L ts of
        Inl err \<Rightarrow> Inl err
      | Inr (left, ts1) \<Rightarrow>
          (let opTok = peek ts1; ts2 = advance ts1
           in case tokenToComparisonOp (Type opTok) of
                Inl err \<Rightarrow> Inl err
              | Inr op \<Rightarrow>
                  (case parseTerm L ts2 of
                     Inl err \<Rightarrow> Inl err
                   | Inr (right, ts3) \<Rightarrow> Inr (Comparison left op right, ts3))))"

text \<open>
  The expression parser descends recursively and each call may call again on the tokens a
  callee left; the recursion of the model is on a budget of nested calls instead, and
  \<open>None\<close> is the budget running out. \<^verbatim>\<open>parseExpression\<close> only calls \<^verbatim>\<open>parseAdditive\<close> and
  \<^verbatim>\<open>parseUnary\<close> only calls \<^verbatim>\<open>parsePrimary\<close>. \<open>additive_loop\<close>, \<open>multiplicative_loop\<close> and
  \<open>call_args\<close> are the \<^verbatim>\<open>for\<close> loops of \<^verbatim>\<open>parseAdditive\<close>, \<^verbatim>\<open>parseMultiplicative\<close> and
  \<^verbatim>\<open>parseFunctionCall\<close>.
\<close>

function parseAdditive :: "GoLib \<Rightarrow> nat \<Rightarrow> Token list \<Rightarrow> (error + Expression \<times> Token list) option"
  and additive_loop ::
    "GoLib \<Rightarrow> nat \<Rightarrow> Expression \<Rightarrow> Token list \<Rightarrow> (error + Expression \<times> Token list) option"
  and parseMultiplicative ::
    "GoLib \<Rightarrow> nat \<Rightarrow> Token list \<Rightarrow> (error + Expression \<times> Token list) option"
  and multiplicative_loop ::
    "GoLib \<Rightarrow> nat \<Rightarrow> Expression \<Rightarrow> Token list \<Rightarrow> (error + Expression \<times> Token list) option"
  and parsePrimary :: "GoLib \<Rightarrow> nat \<Rightarrow> Token list \<Rightarrow> (error + Expression \<times> Token list) option"
  and parseFunctionCall ::
    "GoLib \<Rightarrow> nat \<Rightarrow> Token list \<Rightarrow> (error + Expression \<times> Token list) option"
  and call_args ::
    "GoLib \<Rightarrow> nat \<Rightarrow> Token list \<Rightarrow> Expression list
       \<Rightarrow> (error + Expression list \<times> Token list) option"
where
  "parseAdditive L 0 ts = None"
| "parseAdditive L (Suc n) ts =
     (case parseMultiplicative L n ts of
        None \<Rightarrow> None
      | Some (Inl err) \<Rightarrow> Some (Inl err)
      | Some (Inr (left, ts1)) \<Rightarrow> additive_loop L n left ts1)"
| "additive_loop L 0 left ts = None"
| "additive_loop L (Suc n) left ts =
     (let tok = peek ts
      in if Type tok \<noteq> TokenPlus \<and> Type tok \<noteq> TokenMinus then Some (Inr (left, ts))
         else
           (let op = (if Type tok = TokenPlus then OpAdd else OpSub)
            in case parseMultiplicative L n (advance ts) of
                 None \<Rightarrow> None
               | Some (Inl err) \<Rightarrow> Some (Inl err)
               | Some (Inr (right, ts1)) \<Rightarrow> additive_loop L n (BinaryExpr left op right) ts1))"
| "parseMultiplicative L 0 ts = None"
| "parseMultiplicative L (Suc n) ts =
     (case parsePrimary L n ts of
        None \<Rightarrow> None
      | Some (Inl err) \<Rightarrow> Some (Inl err)
      | Some (Inr (left, ts1)) \<Rightarrow> multiplicative_loop L n left ts1)"
| "multiplicative_loop L 0 left ts = None"
| "multiplicative_loop L (Suc n) left ts =
     (let tok = peek ts
      in if Type tok \<noteq> TokenStar \<and> Type tok \<noteq> TokenSlash \<and> Type tok \<noteq> TokenPercent
         then Some (Inr (left, ts))
         else
           (let op = (if Type tok = TokenStar then OpMul
                      else if Type tok = TokenSlash then OpDiv else OpMod)
            in case parsePrimary L n (advance ts) of
                 None \<Rightarrow> None
               | Some (Inl err) \<Rightarrow> Some (Inl err)
               | Some (Inr (right, ts1)) \<Rightarrow>
                   multiplicative_loop L n (BinaryExpr left op right) ts1))"
| "parsePrimary L 0 ts = None"
| "parsePrimary L (Suc n) ts =
     (let tok = peek ts
      in if Type tok = TokenLParen then
           (case parseAdditive L n (advance ts) of
              None \<Rightarrow> None
            | Some (Inl err) \<Rightarrow> Some (Inl err)
            | Some (Inr (expr, ts1)) \<Rightarrow>
                (case expect TokenRParen ts1 of
                   Inl err \<Rightarrow> Some (Inl err)
                 | Inr (rp, ts2) \<Rightarrow> Some (Inr (expr, ts2))))
         else if Type tok = TokenIdent \<and> Type (peekN 1 ts) = TokenLParen then
           parseFunctionCall L n ts
         else
           (case parseTerm L ts of
              Inl err \<Rightarrow> Some (Inl err)
            | Inr (term, ts1) \<Rightarrow> Some (Inr (TermExpr term, ts1))))"
| "parseFunctionCall L 0 ts = None"
| "parseFunctionCall L (Suc n) ts =
     (let nameTok = peek ts
      in case expect TokenLParen (advance ts) of
           Inl err \<Rightarrow> Some (Inl err)
         | Inr (lp, ts1) \<Rightarrow>
             (case call_args L n ts1 [] of
                None \<Rightarrow> None
              | Some (Inl err) \<Rightarrow> Some (Inl err)
              | Some (Inr (args, ts2)) \<Rightarrow>
                  (case expect TokenRParen ts2 of
                     Inl err \<Rightarrow> Some (Inl err)
                   | Inr (rp, ts3) \<Rightarrow> Some (Inr (FunctionCall (Value nameTok) args, ts3)))))"
| "call_args L 0 ts args = None"
| "call_args L (Suc n) ts args =
     (if Type (peek ts) \<noteq> TokenRParen then
        (case parseAdditive L n ts of
           None \<Rightarrow> None
         | Some (Inl err) \<Rightarrow> Some (Inl err)
         | Some (Inr (expr, ts1)) \<Rightarrow>
             (case match TokenComma ts1 of
                (matched, ts2) \<Rightarrow>
                  if \<not> matched then Some (Inr (args @ [expr], ts2))
                  else call_args L n ts2 (args @ [expr])))
      else Some (Inr (args, ts)))"
  by pat_completeness auto



termination
  by (relation "measure (case_sum (case_sum (fst \<circ> snd) (case_sum (fst \<circ> snd) (fst \<circ> snd)))
                  (case_sum (case_sum (fst \<circ> snd) (fst \<circ> snd))
                            (case_sum (fst \<circ> snd) (fst \<circ> snd))))")
     simp_all


definition parseExpression ::
    "GoLib \<Rightarrow> nat \<Rightarrow> Token list \<Rightarrow> (error + Expression \<times> Token list) option" where
  "parseExpression L n ts = parseAdditive L n ts"

definition parseUnary ::
    "GoLib \<Rightarrow> nat \<Rightarrow> Token list \<Rightarrow> (error + Expression \<times> Token list) option" where
  "parseUnary L n ts = parsePrimary L n ts"

definition parseAssignmentOrComparison ::
    "GoLib \<Rightarrow> nat \<Rightarrow> Token list \<Rightarrow> (error + Clause \<times> Token list) option" where
  "parseAssignmentOrComparison L n ts =
     (let varTok = peek ts;
          variable = Value varTok;
          ts1 = advance (advance ts)
      in case parseExpression L n ts1 of
           None \<Rightarrow> None
         | Some (Inl err) \<Rightarrow> Some (Inl err)
         | Some (Inr (expr, ts2)) \<Rightarrow>
             (case expr of
                TermExpr term \<Rightarrow> Some (Inr (Comparison (Variable variable) OpEq term, ts2))
              | _ \<Rightarrow> Some (Inr (Assignment variable expr, ts2))))"

text \<open>
  The head of \<^verbatim>\<open>parseAggregation\<close>, up to the comma before the body: the operation and the
  aggregated variable (empty for \<open>count\<close>).
\<close>

definition aggregation_head :: "Token list \<Rightarrow> error + (string \<times> string) \<times> Token list" where
  "aggregation_head ts =
     (case expect TokenAggregate ts of
        Inl err \<Rightarrow> Inl err
      | Inr (kw, ts1) \<Rightarrow>
     (case expect TokenLParen ts1 of
        Inl err \<Rightarrow> Inl err
      | Inr (lp, ts2) \<Rightarrow>
     (let opTok = peek ts2; ts3 = advance ts2
      in case (case tokenToAggregateOp (Type opTok) of
                 Inr op \<Rightarrow> Inr op
               | Inl err \<Rightarrow>
                   if Type opTok = TokenIdent then
                     (if Value opTok = ''count'' then Inr AggCount
                      else if Value opTok = ''sum'' then Inr AggSum
                      else if Value opTok = ''max'' then Inr AggMax
                      else if Value opTok = ''min'' then Inr AggMin
                      else if Value opTok = ''avg'' then Inr AggAvg
                      else Inl (Errorf (''unknown aggregate operation: '' @ Value opTok)))
                   else Inl err) of
           Inl err \<Rightarrow> Inl err
         | Inr op \<Rightarrow>
             (case (if op \<noteq> AggCount then
                      (case expect TokenLParen ts3 of
                         Inl err \<Rightarrow> Inl err
                       | Inr (lp2, ts4) \<Rightarrow>
                      (case expect TokenVariable ts4 of
                         Inl err \<Rightarrow> Inl err
                       | Inr (varTok, ts5) \<Rightarrow>
                      (case expect TokenRParen ts5 of
                         Inl err \<Rightarrow> Inl err
                       | Inr (rp, ts6) \<Rightarrow> Inr (Value varTok, ts6))))
                    else Inr ([], ts3)) of
                Inl err \<Rightarrow> Inl err
              | Inr (aggVar, ts7) \<Rightarrow>
                  (case expect TokenComma ts7 of
                     Inl err \<Rightarrow> Inl err
                   | Inr (comma, ts8) \<Rightarrow> Inr ((op, aggVar), ts8))))))"

text \<open>The end of \<^verbatim>\<open>parseAggregation\<close>, after the body: the result variable.\<close>

definition aggregation_tail :: "Token list \<Rightarrow> error + string \<times> Token list" where
  "aggregation_tail ts =
     (case expect TokenComma ts of
        Inl err \<Rightarrow> Inl err
      | Inr (comma, ts1) \<Rightarrow>
     (case expect TokenVariable ts1 of
        Inl err \<Rightarrow> Inl err
      | Inr (resultTok, ts2) \<Rightarrow>
     (case expect TokenRParen ts2 of
        Inl err \<Rightarrow> Inl err
      | Inr (rp, ts3) \<Rightarrow> Inr (Value resultTok, ts3))))"

text \<open>
  \<^verbatim>\<open>parseClause\<close>, \<^verbatim>\<open>parseAggregation\<close> and the loop of \<^verbatim>\<open>parseBody\<close> call each other; they
  share the budget of the expression parser.
\<close>

function parseClause :: "GoLib \<Rightarrow> nat \<Rightarrow> Token list \<Rightarrow> (error + Clause \<times> Token list) option"
  and parseAggregation :: "GoLib \<Rightarrow> nat \<Rightarrow> Token list \<Rightarrow> (error + Clause \<times> Token list) option"
  and body_loop ::
    "GoLib \<Rightarrow> nat \<Rightarrow> Token list \<Rightarrow> Clause list \<Rightarrow> (error + Clause list \<times> Token list) option"
where
  "parseClause L 0 ts = None"
| "parseClause L (Suc n) ts =
     (case match TokenNot ts of
        (True, ts1) \<Rightarrow>
          (case parseAtom L ts1 of
             Inl err \<Rightarrow> Some (Inl err)
           | Inr (atom, ts2) \<Rightarrow> Some (Inr (Negation atom, ts2)))
      | (False, ts1) \<Rightarrow>
          if Type (peek ts) = TokenAggregate then parseAggregation L n ts
          else if Type (peek ts) = TokenVariable \<and> Type (peekN 1 ts) = TokenEq
            then parseAssignmentOrComparison L n ts
          else if Type (peek ts) = TokenVariable \<and> isComparisonOp (Type (peekN 1 ts))
            then Some (parseComparison L ts)
          else
            (case parseAtom L ts of
               Inl err \<Rightarrow> Some (Inl err)
             | Inr (atom, ts2) \<Rightarrow> Some (Inr (AtomClause atom, ts2))))"
| "parseAggregation L 0 ts = None"
| "parseAggregation L (Suc n) ts =
     (case aggregation_head ts of
        Inl err \<Rightarrow> Some (Inl err)
      | Inr ((op, aggVar), ts1) \<Rightarrow>
          (case body_loop L n ts1 [] of
             None \<Rightarrow> None
           | Some (Inl err) \<Rightarrow> Some (Inl err)
           | Some (Inr (body, ts2)) \<Rightarrow>
               (case aggregation_tail ts2 of
                  Inl err \<Rightarrow> Some (Inl err)
                | Inr (into, ts3) \<Rightarrow> Some (Inr (Aggregation op aggVar body into, ts3)))))"
| "body_loop L 0 ts clauses = None"
| "body_loop L (Suc n) ts clauses =
     (case parseClause L n ts of
        None \<Rightarrow> None
      | Some (Inl err) \<Rightarrow> Some (Inl err)
      | Some (Inr (clause, ts1)) \<Rightarrow>
          (case match TokenComma ts1 of
             (matched, ts2) \<Rightarrow>
               if \<not> matched then Some (Inr (clauses @ [clause], ts2))
               else body_loop L n ts2 (clauses @ [clause])))"
  by pat_completeness auto
termination
  by (relation "measure (case_sum (fst \<circ> snd) (case_sum (fst \<circ> snd) (fst \<circ> snd)))") simp_all

definition parseBody :: "GoLib \<Rightarrow> nat \<Rightarrow> Token list \<Rightarrow> (error + Clause list \<times> Token list) option" where
  "parseBody L n ts = body_loop L n ts []"

text \<open>
  The clause the specification gives for a variable on the left of \<open>=\<close> and the expression
  parsed on its right: a comparison by \<open>=\<close> when the expression is a single term, an
  assignment when it is a binary expression or a function call. It is written from the
  specification, to be compared with what \<open>parseClause\<close> returns.
\<close>

fun tie_break :: "string \<Rightarrow> Expression \<Rightarrow> Clause" where
  "tie_break variable (TermExpr term) = Comparison (Variable variable) OpEq term"
| "tie_break variable (BinaryExpr left op right) = Assignment variable (BinaryExpr left op right)"
| "tie_break variable (FunctionCall fname args) = Assignment variable (FunctionCall fname args)"

text \<open>A token of the given type and text, for examples.\<close>

definition token :: "TokenType \<Rightarrow> string \<Rightarrow> Token" where
  "token typ v = \<lparr>Type = typ, Value = v, Line = 1, Column = 1\<rparr>"

section \<open>Properties of the formatting built-ins\<close>








section \<open>Properties of the deduplication\<close>

lemma dedup_loop_eq:
  "dedup_loop xs seen result = result @ dedup_loop xs seen []"
proof (induction xs arbitrary: seen result)
  case Nil show ?case by simp
next
  case (Cons s rest)
  show ?case
    using Cons.IH [of "insert (dedup_key s) seen" "result @ [s]"]
          Cons.IH [of "insert (dedup_key s) seen" "[s]"]
          Cons.IH [of seen result]
    by (simp add: Let_def)
qed

lemma dedup_loop_Cons:
  "dedup_loop (s # rest) seen [] =
     (if dedup_key s \<in> seen then dedup_loop rest seen []
      else s # dedup_loop rest (insert (dedup_key s) seen) [])"
  using dedup_loop_eq [of rest "insert (dedup_key s) seen" "[s]"] by (simp add: Let_def)

lemma dedup_loop_subseq: "subseq (dedup_loop xs seen []) xs"
  by (induction xs arbitrary: seen)
     (auto simp: dedup_loop_Cons simp del: dedup_loop.simps(2) intro: list_emb_Cons)

lemma dedup_loop_unseen: "x \<in> set (dedup_loop xs seen []) \<Longrightarrow> dedup_key x \<notin> seen"
  by (induction xs arbitrary: seen)
     (auto simp: dedup_loop_Cons simp del: dedup_loop.simps(2) split: if_splits)

lemma dedup_loop_distinct: "distinct (map dedup_key (dedup_loop xs seen []))"
  by (induction xs arbitrary: seen)
     (auto simp: dedup_loop_Cons simp del: dedup_loop.simps(2) dest: dedup_loop_unseen)

lemma dedup_loop_find:
  "find (\<lambda>t. dedup_key t = k) (dedup_loop xs seen []) =
     (if k \<in> seen then None else find (\<lambda>t. dedup_key t = k) xs)"
  by (induction xs arbitrary: seen)
     (auto simp: dedup_loop_Cons simp del: dedup_loop.simps(2))

lemma key_injective:
  assumes "CHR '':'' \<notin> set r1" and "CHR '':'' \<notin> set r2"
    and "r1 @ '':'' @ t1 = r2 @ '':'' @ t2"
  shows "r1 = r2 \<and> t1 = t2"
proof -
  have "takeWhile (\<lambda>c. c \<noteq> CHR '':'') (r1 @ '':'' @ t1) = r1"
    using assms(1) by (auto simp: takeWhile_tail)
  moreover have "takeWhile (\<lambda>c. c \<noteq> CHR '':'') (r2 @ '':'' @ t2) = r2"
    using assms(2) by (auto simp: takeWhile_tail)
  ultimately have "r1 = r2" using assms(3) by simp
  then show ?thesis using assms(3) by simp
qed

lemma dedup_key_eq_iff:
  "CHR '':'' \<notin> set (RuleID s) \<Longrightarrow> CHR '':'' \<notin> set (RuleID t) \<Longrightarrow>
     (dedup_key s = dedup_key t) = (rule_target s = rule_target t)"
  using key_injective [of "RuleID s" "RuleID t" "Target s" "Target t"]
  by (auto simp: dedup_key_def rule_target_def)

text \<open>
  C8. The list returned by \<open>deduplicateSuggestions\<close> is a subsequence of its input in which
  no two items share the pair (rule id, target), and the item kept for a pair is the first
  item of the input with that pair. The function keys on the string
  \<^verbatim>\<open>RuleID + ":" + Target\<close>, so the last part needs rule ids without a colon: the rule id of
  a suggestion is the name of its rule, which the parser takes from an identifier token,
  and the lexer's identifiers are made of letters, digits and underscores.
\<close>

theorem deduplicateSuggestions_first_kept:
  "subseq (deduplicateSuggestions xs) xs
   \<and> distinct (map rule_target (deduplicateSuggestions xs))
   \<and> ((\<forall>s \<in> set xs. CHR '':'' \<notin> set (RuleID s)) \<longrightarrow>
        (\<forall>s \<in> set xs.
           find (\<lambda>t. rule_target t = rule_target s) (deduplicateSuggestions xs)
         = find (\<lambda>t. rule_target t = rule_target s) xs))"
proof (intro conjI impI ballI)
  show "subseq (deduplicateSuggestions xs) xs"
    by (simp add: deduplicateSuggestions_def dedup_loop_subseq)
  have "map dedup_key (deduplicateSuggestions xs)
      = map (\<lambda>(r, t). r @ '':'' @ t) (map rule_target (deduplicateSuggestions xs))"
    by (simp add: dedup_key_def rule_target_def)
  then have "distinct (map (\<lambda>(r, t). r @ '':'' @ t) (map rule_target (deduplicateSuggestions xs)))"
    using dedup_loop_distinct [of xs "{}"] by (simp only: deduplicateSuggestions_def)
  then show "distinct (map rule_target (deduplicateSuggestions xs))"
    by (simp only: distinct_map)
next
  fix s
  assume nc: "\<forall>s \<in> set xs. CHR '':'' \<notin> set (RuleID s)" and s: "s \<in> set xs"
  have sub: "set (deduplicateSuggestions xs) \<subseteq> set xs"
    using dedup_loop_subseq [of xs "{}"]
    by (auto simp: deduplicateSuggestions_def elim: list_emb_set)
  have a: "find (\<lambda>t. rule_target t = rule_target s) (deduplicateSuggestions xs)
         = find (\<lambda>t. dedup_key t = dedup_key s) (deduplicateSuggestions xs)"
    using nc s sub by (intro find_cong refl) (auto simp: dedup_key_eq_iff)
  have b: "find (\<lambda>t. rule_target t = rule_target s) xs
         = find (\<lambda>t. dedup_key t = dedup_key s) xs"
    using nc s by (intro find_cong refl) (auto simp: dedup_key_eq_iff)
  show "find (\<lambda>t. rule_target t = rule_target s) (deduplicateSuggestions xs)
      = find (\<lambda>t. rule_target t = rule_target s) xs"
    unfolding a b by (simp add: deduplicateSuggestions_def dedup_loop_find)
qed

theorem deduplicateSuggestions_first_kept_witness:
  "subseq (deduplicateSuggestions [sug ''r'' ''//x'' ''one'', sug ''r'' ''//x'' ''two'', sug ''q'' ''//x'' ''three''])
      [sug ''r'' ''//x'' ''one'', sug ''r'' ''//x'' ''two'', sug ''q'' ''//x'' ''three'']
   \<and> deduplicateSuggestions [sug ''r'' ''//x'' ''one'', sug ''r'' ''//x'' ''two'', sug ''q'' ''//x'' ''three'']
      = [sug ''r'' ''//x'' ''one'', sug ''q'' ''//x'' ''three'']"
  using deduplicateSuggestions_first_kept
    [of "[sug ''r'' ''//x'' ''one'', sug ''r'' ''//x'' ''two'', sug ''q'' ''//x'' ''three'']"]
  by (simp add: deduplicateSuggestions_def dedup_key_def sug_def)

section \<open>Properties of the fact builder\<close>

lemma event_facts_predicates: "f \<in> set (event_facts i e) \<Longrightarrow> Fact.Predicate f \<in> builder_predicates"
  by (auto simp: event_facts_def builder_predicates_def split: option.splits if_splits)

lemma first_pass_predicates:
  "\<forall>f \<in> set fs. Fact.Predicate f \<in> builder_predicates \<Longrightarrow>
   \<forall>f \<in> set (fst (first_pass i es fs tot)). Fact.Predicate f \<in> builder_predicates"
proof (induction es arbitrary: i fs tot)
  case Nil then show ?case by simp
next
  case (Cons e es)
  show ?case
    unfolding first_pass.simps Let_def
    by (rule Cons.IH) (use Cons.prems event_facts_predicates in auto)
qed

lemma computeCriticalPath_predicates:
  "f \<in> set (computeCriticalPath events) \<Longrightarrow> Fact.Predicate f \<in> builder_predicates"
  by (auto simp: computeCriticalPath_def builder_predicates_def Let_def
           split: option.splits if_splits)

lemma GenerateFacts_predicates:
  "f \<in> set (GenerateFacts L events) \<Longrightarrow> Fact.Predicate f \<in> builder_predicates"
proof -
  assume f: "f \<in> set (GenerateFacts L events)"
  obtain fs tot where fp: "first_pass 0 events []
      \<lparr>acc_totalDuration = 0, acc_maxEnd = 0, acc_actionableTime = 0, acc_actionableCount = 0\<rparr>
      = (fs, tot)" by (cases "first_pass 0 events []
      \<lparr>acc_totalDuration = 0, acc_maxEnd = 0, acc_actionableTime = 0, acc_actionableCount = 0\<rparr>")
  have "\<forall>f \<in> set fs. Fact.Predicate f \<in> builder_predicates"
    using first_pass_predicates [of "[]" 0 events
      "\<lparr>acc_totalDuration = 0, acc_maxEnd = 0, acc_actionableTime = 0, acc_actionableCount = 0\<rparr>"] fp
    by simp
  then show ?thesis
    using f fp computeCriticalPath_predicates [of f events]
    by (auto simp: GenerateFacts_def Let_def builder_predicates_def)
qed

text \<open>
  C3. For every target the builder adds up a duration and a count (\<open>targetTime\<close>,
  \<open>targetCount\<close>), as it does for categories and mnemonics, but it emits the
  \<open>target_time\<close> facts only: no event sequence yields a \<open>target_count\<close> fact.
\<close>

theorem GenerateFacts_no_target_count:
  "filter (\<lambda>f. Fact.Predicate f = ''target_count'') (GenerateFacts L events) = []"
proof -
  have "''target_count'' \<notin> builder_predicates" by (simp add: builder_predicates_def)
  then show ?thesis
    using GenerateFacts_predicates [of _ L events] by (fastforce simp: filter_empty_conv)
qed

lemma exchange_sort_single [simp]: "exchange_sort C [x] = [x]"
  by (simp add: exchange_sort_def exchange_outer.simps)

theorem GenerateFacts_no_target_count_witness:
  "map Fact.Predicate (GenerateFacts sampleLib [ev 0 1000 [(''target'', ''//a:b''), (''mnemonic'', ''CppCompile'')]])
     = [''trace_event'', ''trace_event_tid'', ''trace_event_pid'', ''trace_event_mnemonic'',
        ''trace_event_target'', ''has_target'', ''is_actionable'', ''total_duration'',
        ''total_action_time'', ''total_actions'', ''actionable_time'', ''actionable_count'',
        ''category_time'', ''category_count'', ''mnemonic_time'', ''mnemonic_count'',
        ''target_time'', ''max_concurrency'', ''critical_path_end'', ''critical_path_percent'',
        ''potential_bottleneck'']"
  using GenerateFacts_no_target_count [of sampleLib "[ev 0 1000 [(''target'', ''//a:b''), (''mnemonic'', ''CppCompile'')]]"]
  by (simp add: GenerateFacts_def ev_def event_facts_def mnemonic_of_def target_of_def
      isActionable_def isSystemCategory_def computeCriticalPath_def Let_def)

subsection \<open>The exchange sort sorts\<close>

lemma exchange_inner_props:
  assumes "\<And>x y z. C x y \<Longrightarrow> C y z \<Longrightarrow> C x z" and "\<And>x y. C x y \<Longrightarrow> \<not> C y x"
    and "i < j" and "j \<le> length a" and "\<forall>b. i < b \<and> b < j \<longrightarrow> \<not> C (a ! i) (a ! b)"
  shows "take i (exchange_inner C i j a) = take i a
       \<and> mset (exchange_inner C i j a) = mset a
       \<and> (\<forall>b. i < b \<and> b < length a \<longrightarrow>
            \<not> C (exchange_inner C i j a ! i) (exchange_inner C i j a ! b))"
  using assms
proof (induction C i j a rule: exchange_inner.induct)
  case (1 C i j a)
  show ?case
  proof (cases "j < length a")
    case False
    then have "exchange_inner C i j a = a" by (subst exchange_inner.simps) simp
    moreover have "j = length a" using False "1.prems"(4) by simp
    ultimately show ?thesis using "1.prems"(5) by simp
  next
    case True
    define a' where "a' = (if C (a ! i) (a ! j) then a[i := a ! j, j := a ! i] else a)"
    have step: "exchange_inner C i j a = exchange_inner C i (j + 1) a'"
      using True by (subst exchange_inner.simps) (simp add: a'_def)
    have len: "length a' = length a" by (simp add: a'_def)
    have ij: "i < length a" using "1.prems"(3) True by simp
    have tk: "take i a' = take i a" using "1.prems"(3) by (simp add: a'_def)
    have ms: "mset a' = mset a"
      using ij True by (simp add: a'_def mset_swap)
    have inv: "\<forall>b. i < b \<and> b < j + 1 \<longrightarrow> \<not> C (a' ! i) (a' ! b)"
    proof (intro allI impI)
      fix b assume b: "i < b \<and> b < j + 1"
      show "\<not> C (a' ! i) (a' ! b)"
      proof (cases "C (a ! i) (a ! j)")
        case False
        then have "a' = a" by (simp add: a'_def)
        then show ?thesis using b False "1.prems"(5) by (cases "b = j") auto
      next
        case sw: True
        have ai: "a' ! i = a ! j" using ij True "1.prems"(3) by (simp add: a'_def sw)
        show ?thesis
        proof (cases "b = j")
          case True
          then have "a' ! b = a ! i" using ij \<open>j < length a\<close> by (simp add: a'_def sw)
          then show ?thesis using ai sw "1.prems"(2) by auto
        next
          case False
          then have bj: "b < j" using b by simp
          then have "a' ! b = a ! b" using b ij True by (simp add: a'_def sw)
          moreover have "\<not> C (a ! i) (a ! b)" using "1.prems"(5) b bj by simp
          ultimately show ?thesis using ai sw "1.prems"(1) by metis
        qed
      qed
    qed
    have IH: "take i (exchange_inner C i (j + 1) a') = take i a'
       \<and> mset (exchange_inner C i (j + 1) a') = mset a'
       \<and> (\<forall>b. i < b \<and> b < length a' \<longrightarrow>
            \<not> C (exchange_inner C i (j + 1) a' ! i) (exchange_inner C i (j + 1) a' ! b))"
      using "1.IH" [OF True "1.prems"(1) "1.prems"(2)] "1.prems"(3) True inv len
      unfolding a'_def by simp
    show ?thesis using IH step tk ms len by simp
  qed
qed

lemma nth_drop_in_set:
  assumes "mset a' = mset a" and "take i a' = take i a" and "i \<le> b" and "b < length a"
  shows "\<exists>b'. i \<le> b' \<and> b' < length a \<and> a' ! b = a ! b'"
proof -
  have len: "length a' = length a" using assms(1) by (metis size_mset)
  have "mset (take i a') + mset (drop i a') = mset (take i a) + mset (drop i a)"
    using assms(1) by (metis append_take_drop_id mset_append)
  then have "mset (drop i a') = mset (drop i a)" using assms(2) by simp
  then have "set (drop i a') = set (drop i a)" by (metis set_mset_mset)
  moreover have "a' ! b \<in> set (drop i a')"
  proof -
    have "b - i < length (drop i a')" using assms(3,4) len by simp
    then have "drop i a' ! (b - i) \<in> set (drop i a')" by (rule nth_mem)
    moreover have "drop i a' ! (b - i) = a' ! b" using assms(3,4) len by simp
    ultimately show ?thesis by simp
  qed
  ultimately have "a' ! b \<in> set (drop i a)" by simp
  then obtain k where "k < length (drop i a)" "drop i a ! k = a' ! b"
    by (auto simp: in_set_conv_nth)
  then show ?thesis by (intro exI [of _ "i + k"]) auto
qed

lemma exchange_outer_props:
  assumes "\<And>x y z. C x y \<Longrightarrow> C y z \<Longrightarrow> C x z" and "\<And>x y. C x y \<Longrightarrow> \<not> C y x"
    and "\<forall>p q. p < q \<and> q < length a \<and> p < i \<longrightarrow> \<not> C (a ! p) (a ! q)"
  shows "mset (exchange_outer C i a) = mset a
       \<and> (\<forall>p q. p < q \<and> q < length a \<longrightarrow>
             \<not> C (exchange_outer C i a ! p) (exchange_outer C i a ! q))"
  using assms
proof (induction C i a rule: exchange_outer.induct)
  case (1 C i a)
  show ?case
  proof (cases "i + 1 < length a")
    case False
    then have "exchange_outer C i a = a" by (subst exchange_outer.simps) simp
    moreover have "\<forall>p q. p < q \<and> q < length a \<longrightarrow> p < i" using False by auto
    ultimately show ?thesis using "1.prems"(3) by auto
  next
    case True
    define a' where "a' = exchange_inner C i (i + 1) a"
    have step: "exchange_outer C i a = exchange_outer C (i + 1) a'"
      using True by (subst exchange_outer.simps) (simp add: a'_def)
    have inner: "take i a' = take i a \<and> mset a' = mset a
       \<and> (\<forall>b. i < b \<and> b < length a \<longrightarrow> \<not> C (a' ! i) (a' ! b))"
      unfolding a'_def
      by (rule exchange_inner_props [OF "1.prems"(1) "1.prems"(2)]) (use True in auto)
    have len: "length a' = length a" by (simp add: a'_def length_exchange_inner)
    have inv: "\<forall>p q. p < q \<and> q < length a' \<and> p < i + 1 \<longrightarrow> \<not> C (a' ! p) (a' ! q)"
    proof (intro allI impI)
      fix p q assume pq: "p < q \<and> q < length a' \<and> p < i + 1"
      show "\<not> C (a' ! p) (a' ! q)"
      proof (cases "p = i")
        case True
        then show ?thesis using inner pq len by auto
      next
        case False
        then have pi: "p < i" using pq by simp
        have ap: "a' ! p = a ! p" using inner pi by (metis nth_take)
        show ?thesis
        proof (cases "q < i")
          case True
          then have "a' ! q = a ! q" using inner by (metis nth_take)
          then show ?thesis using ap "1.prems"(3) pq pi len by auto
        next
          case False
          then obtain q' where "i \<le> q'" "q' < length a" "a' ! q = a ! q'"
            using nth_drop_in_set [of a' a i q] inner pq len by auto
          then show ?thesis using ap "1.prems"(3) pi by auto
        qed
      qed
    qed
    have "mset (exchange_outer C (i + 1) a') = mset a'
       \<and> (\<forall>p q. p < q \<and> q < length a' \<longrightarrow>
             \<not> C (exchange_outer C (i + 1) a' ! p) (exchange_outer C (i + 1) a' ! q))"
      using "1.IH" [OF True "1.prems"(1) "1.prems"(2)] inv unfolding a'_def by simp
    then show ?thesis using step inner len by simp
  qed
qed

lemma exchange_sort_sorted:
  assumes "\<And>x y z. C x y \<Longrightarrow> C y z \<Longrightarrow> C x z" and "\<And>x y. C x y \<Longrightarrow> \<not> C y x"
  shows "mset (exchange_sort C a) = mset a"
    and "sorted_wrt (\<lambda>x y. \<not> C x y) (exchange_sort C a)"
proof -
  have p: "mset (exchange_outer C 0 a) = mset a
       \<and> (\<forall>p q. p < q \<and> q < length a \<longrightarrow>
             \<not> C (exchange_outer C 0 a ! p) (exchange_outer C 0 a ! q))"
  proof (rule exchange_outer_props [OF assms])
    show "\<forall>p q. p < q \<and> q < length a \<and> p < (0::nat) \<longrightarrow> \<not> C (a ! p) (a ! q)"
      by simp
  qed
  then show "mset (exchange_sort C a) = mset a" by (simp add: exchange_sort_def)
  have "length (exchange_outer C 0 a) = length a" using p by (metis size_mset)
  then show "sorted_wrt (\<lambda>x y. \<not> C x y) (exchange_sort C a)"
    using p by (simp add: exchange_sort_def sorted_wrt_iff_nth_less)
qed

lemma point_after_trans: "point_after x y \<Longrightarrow> point_after y z \<Longrightarrow> point_after x z"
  by (auto simp: point_after_def)

lemma point_after_asym: "point_after x y \<Longrightarrow> \<not> point_after y x"
  by (auto simp: point_after_def)

subsection \<open>The sweep over sorted points\<close>

lemma sweep_ge_max: "maxConcurrent \<le> sweep ps maxConcurrent current"
proof (induction ps arbitrary: maxConcurrent current)
  case Nil show ?case by simp
next
  case (Cons p ps)
  show ?case
    using Cons [of "current + 1" "current + 1"] Cons [of maxConcurrent "current + 1"]
          Cons [of maxConcurrent "current - 1"]
    by (simp add: Let_def)
qed

lemma sweep_ge_prefix:
  "isStart p \<Longrightarrow> current + balance (xs @ [p]) xs \<le> sweep (xs @ p # ys) maxConcurrent current"
proof (induction xs arbitrary: maxConcurrent current)
  case Nil
  show ?case
    using Nil sweep_ge_max [of "current + 1" ys "current + 1"]
          sweep_ge_max [of maxConcurrent ys "current + 1"]
    by (simp add: balance_def Let_def)
next
  case (Cons x xs)
  show ?case
    using Cons.IH [OF Cons.prems, of "current + 1" "current + 1"]
          Cons.IH [OF Cons.prems, of "current + 1" maxConcurrent]
          Cons.IH [OF Cons.prems, of "current - 1" maxConcurrent]
    by (simp add: balance_def Let_def)
qed

lemma sweep_attained:
  "sweep ps maxConcurrent current = maxConcurrent
   \<or> (\<exists>xs p ys. ps = xs @ p # ys \<and> isStart p
         \<and> sweep ps maxConcurrent current = current + balance (xs @ [p]) xs)"
proof (induction ps arbitrary: maxConcurrent current)
  case Nil show ?case by simp
next
  case (Cons q ps)
  show ?case
  proof (cases "isStart q")
    case False
    from Cons [of maxConcurrent "current - 1"] show ?thesis
    proof
      assume "sweep ps maxConcurrent (current - 1) = maxConcurrent"
      then show ?thesis using False by simp
    next
      assume "\<exists>xs p ys. ps = xs @ p # ys \<and> isStart p
         \<and> sweep ps maxConcurrent (current - 1) = current - 1 + balance (xs @ [p]) xs"
      then obtain xs p ys where d: "ps = xs @ p # ys" "isStart p"
         "sweep ps maxConcurrent (current - 1) = current - 1 + balance (xs @ [p]) xs" by blast
      have "q # ps = (q # xs) @ p # ys" using d by simp
      moreover have "sweep (q # ps) maxConcurrent current = current + balance ((q # xs) @ [p]) (q # xs)"
        using d False by (simp add: balance_def)
      ultimately show ?thesis using d(2) by blast
    qed
  next
    case True
    define m' where "m' = (if current + 1 > maxConcurrent then current + 1 else maxConcurrent)"
    have step: "sweep (q # ps) maxConcurrent current = sweep ps m' (current + 1)"
      using True by (simp add: m'_def Let_def)
    from Cons [of m' "current + 1"] show ?thesis
    proof
      assume eq: "sweep ps m' (current + 1) = m'"
      show ?thesis
      proof (cases "current + 1 > maxConcurrent")
        case False
        then show ?thesis using eq step by (simp add: m'_def)
      next
        case gt: True
        have "q # ps = [] @ q # ps" by simp
        moreover have "sweep (q # ps) maxConcurrent current = current + balance ([] @ [q]) []"
          using eq step gt True by (simp add: m'_def balance_def)
        ultimately show ?thesis using True by blast
      qed
    next
      assume "\<exists>xs p ys. ps = xs @ p # ys \<and> isStart p
         \<and> sweep ps m' (current + 1) = current + 1 + balance (xs @ [p]) xs"
      then obtain xs p ys where d: "ps = xs @ p # ys" "isStart p"
         "sweep ps m' (current + 1) = current + 1 + balance (xs @ [p]) xs" by blast
      have "q # ps = (q # xs) @ p # ys" using d by simp
      moreover have "sweep (q # ps) maxConcurrent current = current + balance ((q # xs) @ [p]) (q # xs)"
        using d True step by (simp add: balance_def)
      ultimately show ?thesis using d(2) by blast
    qed
  qed
qed

text \<open>Counting points of a list that is a permutation of the points of the events.\<close>

lemma count_event_points:
  "length (filter P (event_points L events))
     = length (filter (\<lambda>e. P \<lparr>time = Ts e, isStart = True\<rparr>) events)
     + length (filter (\<lambda>e. P \<lparr>time = event_end L e, isStart = False\<rparr>) events)"
  by (induction events) auto

lemma count_perm:
  "mset pts = mset qs \<Longrightarrow> length (filter P pts) = length (filter P qs)"
  by (metis mset_filter size_mset)

lemma count_starts:
  assumes "mset pts = mset (event_points L events)"
  shows "int (length (filter (\<lambda>p. isStart p \<and> time p \<le> t) pts))
       = int (length (filter (\<lambda>e. Ts e \<le> t) events))"
  using count_perm [OF assms, of "\<lambda>p. isStart p \<and> time p \<le> t"]
  by (simp add: count_event_points)

lemma count_ends:
  assumes "mset pts = mset (event_points L events)"
  shows "int (length (filter (\<lambda>p. \<not> isStart p \<and> time p < t) pts))
       = int (length (filter (\<lambda>e. event_end L e < t) events))"
  using count_perm [OF assms, of "\<lambda>p. \<not> isStart p \<and> time p < t"]
  by (simp add: count_event_points)

lemma closed_count_diff:
  assumes "\<forall>e \<in> set events. Ts e \<le> event_end L e"
  shows "closed_count L events t
       = int (length (filter (\<lambda>e. Ts e \<le> t) events))
       - int (length (filter (\<lambda>e. event_end L e < t) events))"
  using assms by (induction events) (auto simp: closed_count_def)

lemma length_filter_mono:
  "(\<And>x. x \<in> set xs \<Longrightarrow> P x \<Longrightarrow> Q x) \<Longrightarrow> length (filter P xs) \<le> length (filter Q xs)"
  by (induction xs) auto

lemma sorted_split:
  assumes "sorted_wrt (\<lambda>x y. \<not> point_after x y) (xs @ p # ys)"
  shows "\<forall>x \<in> set xs. \<not> point_after x p" and "\<forall>y \<in> set ys. \<not> point_after p y"
  using assms by (auto simp: sorted_wrt_append)

lemma ends_before_start:
  assumes "sorted_wrt (\<lambda>x y. \<not> point_after x y) (xs @ p # ys)" and "isStart p"
  shows "length (filter (\<lambda>q. \<not> isStart q) xs)
       = length (filter (\<lambda>q. \<not> isStart q \<and> time q < time p) (xs @ p # ys))"
proof -
  have "filter (\<lambda>q. \<not> isStart q \<and> time q < time p) xs = filter (\<lambda>q. \<not> isStart q) xs"
    using sorted_split(1) [OF assms(1)] assms(2)
    by (intro filter_cong refl) (auto simp: point_after_def)
  moreover have "filter (\<lambda>q. \<not> isStart q \<and> time q < time p) ys = []"
    using sorted_split(2) [OF assms(1)] by (auto simp: filter_empty_conv point_after_def)
  ultimately show ?thesis using assms(2) by simp
qed

lemma starts_upto_start:
  assumes "sorted_wrt (\<lambda>x y. \<not> point_after x y) (xs @ p # ys)" and "isStart p"
  shows "length (filter isStart (xs @ [p]))
       \<le> length (filter (\<lambda>q. isStart q \<and> time q \<le> time p) (xs @ p # ys))"
proof -
  have "filter (\<lambda>q. isStart q \<and> time q \<le> time p) xs = filter isStart xs"
    using sorted_split(1) [OF assms(1)] assms(2)
    by (intro filter_cong refl) (auto simp: point_after_def)
  then show ?thesis using assms(2) by simp
qed

lemma prefix_value_le:
  assumes "sorted_wrt (\<lambda>x y. \<not> point_after x y) (xs @ p # ys)" and "isStart p"
    and "mset (xs @ p # ys) = mset (event_points L events)"
    and "\<forall>e \<in> set events. Ts e \<le> event_end L e"
  shows "balance (xs @ [p]) xs \<le> closed_count L events (time p)"
proof -
  have "int (length (filter isStart (xs @ [p])))
      \<le> int (length (filter (\<lambda>e. Ts e \<le> time p) events))"
    using starts_upto_start [OF assms(1,2)] count_starts [OF assms(3), of "time p"] by linarith
  moreover have "int (length (filter (\<lambda>q. \<not> isStart q) xs))
      = int (length (filter (\<lambda>e. event_end L e < time p) events))"
    using ends_before_start [OF assms(1,2)] count_ends [OF assms(3), of "time p"] by linarith
  ultimately show ?thesis
    using closed_count_diff [OF assms(4), of "time p"] by (simp add: balance_def)
qed

lemma closed_count_le_sweep:
  assumes "sorted_wrt (\<lambda>x y. \<not> point_after x y) pts"
    and "mset pts = mset (event_points L events)"
    and "\<forall>e \<in> set events. Ts e \<le> event_end L e"
  shows "closed_count L events t \<le> sweep pts 0 0"
proof (cases "\<exists>q \<in> set pts. isStart q \<and> time q \<le> t")
  case False
  then have "filter (\<lambda>p. isStart p \<and> time p \<le> t) pts = []"
    by (auto simp: filter_empty_conv)
  then have "int (length (filter (\<lambda>e. Ts e \<le> t) events)) = 0"
    using count_starts [OF assms(2), of t] by simp
  then have "closed_count L events t \<le> 0"
    using closed_count_diff [OF assms(3), of t] by simp
  then show ?thesis using sweep_ge_max [of 0 pts 0] by linarith
next
  case True
  then obtain xs p ys where d: "pts = xs @ p # ys" "isStart p \<and> time p \<le> t"
      "\<forall>z \<in> set ys. \<not> (isStart z \<and> time z \<le> t)"
    using split_list_last_prop [of pts "\<lambda>q. isStart q \<and> time q \<le> t"] by blast
  have srt: "sorted_wrt (\<lambda>x y. \<not> point_after x y) (xs @ p # ys)" using assms(1) d(1) by simp
  have ms: "mset (xs @ p # ys) = mset (event_points L events)" using assms(2) d(1) by simp
  have "filter (\<lambda>q. isStart q \<and> time q \<le> t) ys = []"
    using d(3) by (auto simp: filter_empty_conv)
  then have "length (filter (\<lambda>q. isStart q \<and> time q \<le> t) (xs @ p # ys))
      = length (filter (\<lambda>q. isStart q \<and> time q \<le> t) (xs @ [p]))" by simp
  also have "\<dots> \<le> length (filter isStart (xs @ [p]))"
    by (rule length_filter_mono) simp
  finally have s: "int (length (filter (\<lambda>e. Ts e \<le> t) events))
      \<le> int (length (filter isStart (xs @ [p])))"
    using count_starts [OF ms, of t] by linarith
  have "length (filter (\<lambda>e. event_end L e < time p) events)
      \<le> length (filter (\<lambda>e. event_end L e < t) events)"
    using d(2) by (intro length_filter_mono) simp
  then have e: "int (length (filter (\<lambda>q. \<not> isStart q) xs))
      \<le> int (length (filter (\<lambda>e. event_end L e < t) events))"
    using ends_before_start [OF srt] d(2) count_ends [OF ms, of "time p"] by linarith
  have "closed_count L events t \<le> balance (xs @ [p]) xs"
    using s e closed_count_diff [OF assms(3), of t] by (simp add: balance_def)
  also have "\<dots> \<le> sweep (xs @ p # ys) 0 0"
    using sweep_ge_prefix [of p 0 xs ys 0] d(2) by simp
  finally show ?thesis using d(1) by simp
qed

text \<open>
  C2 (as amended). When no event ends before it starts, the value of the \<open>max_concurrency\<close>
  fact is the greatest number, over all real \<open>t\<close>, of events with \<open>start \<le> t \<le> end\<close>, where
  \<open>end\<close> is the sum \<open>start + dur\<close> as the program computes it in \<^verbatim>\<open>float64\<close>: the intervals
  are closed, since the sort puts the start points before the end points of the same time.
  (The rounded sum of a start and a duration that is not negative is not below the start.)
\<close>

theorem computeMaxConcurrency_closed:
  assumes "\<forall>e \<in> set events. Ts e \<le> event_end L e"
  shows "is_max_over_reals (closed_count L events) (computeMaxConcurrency L events)"
proof (cases "events = []")
  case True
  then show ?thesis
    by (simp add: is_max_over_reals_def computeMaxConcurrency_def closed_count_def)
next
  case False
  define pts where "pts = exchange_sort point_after (event_points L events)"
  have srt: "sorted_wrt (\<lambda>x y. \<not> point_after x y) pts"
    unfolding pts_def by (rule exchange_sort_sorted(2)) (auto intro: point_after_trans dest: point_after_asym)
  have ms: "mset pts = mset (event_points L events)"
    unfolding pts_def by (rule exchange_sort_sorted(1)) (auto intro: point_after_trans dest: point_after_asym)
  have cmc: "computeMaxConcurrency L events = sweep pts 0 0"
    using False by (simp add: computeMaxConcurrency_def pts_def)
  have upper: "\<forall>t. closed_count L events t \<le> sweep pts 0 0"
    using closed_count_le_sweep [OF srt ms assms] by simp
  obtain e where e: "e \<in> set events" using False by (cases events) auto
  have "1 \<le> closed_count L events (Ts e)"
  proof -
    have "e \<in> set (filter (\<lambda>x. Ts x \<le> Ts e \<and> Ts e \<le> event_end L x) events)"
      using e assms by simp
    then have "0 < length (filter (\<lambda>x. Ts x \<le> Ts e \<and> Ts e \<le> event_end L x) events)"
      by (metis length_pos_if_in_set)
    then show ?thesis unfolding closed_count_def by linarith
  qed
  then have pos: "1 \<le> sweep pts 0 0" using upper by (meson order_trans)
  from sweep_attained [of pts 0 0] pos
  obtain xs p ys where d: "pts = xs @ p # ys" "isStart p"
      "sweep pts 0 0 = 0 + balance (xs @ [p]) xs" by auto
  have "balance (xs @ [p]) xs \<le> closed_count L events (time p)"
    using prefix_value_le [of xs p ys L events] srt ms d assms by simp
  then have "closed_count L events (time p) = sweep pts 0 0"
    using d(3) upper by (simp add: order_antisym)
  then show ?thesis using upper cmc by (auto simp: is_max_over_reals_def)
qed

lemma cmc_example: "computeMaxConcurrency sampleLib [ev 0 100 [], ev 50 100 [], ev 120 30 []] = 2"
  by (simp add: computeMaxConcurrency_def exchange_sort_def exchange_outer.simps
      exchange_inner.simps point_after_def ev_def event_end_def sampleLib_def)

lemma cmc_touching: "computeMaxConcurrency sampleLib [ev 0 10 [], ev 10 10 []] = 2"
  by (simp add: computeMaxConcurrency_def exchange_sort_def exchange_outer.simps
      exchange_inner.simps point_after_def ev_def event_end_def sampleLib_def)

theorem computeMaxConcurrency_closed_witness:
  "is_max_over_reals (closed_count sampleLib [ev 0 100 [], ev 50 100 [], ev 120 30 []])
     (computeMaxConcurrency sampleLib [ev 0 100 [], ev 50 100 [], ev 120 30 []])
   \<and> computeMaxConcurrency sampleLib [ev 0 100 [], ev 50 100 [], ev 120 30 []] = 2"
  using computeMaxConcurrency_closed
    [where L = sampleLib and events = "[ev 0 100 [], ev 50 100 [], ev 120 30 []]"]
  by (simp add: cmc_example) (simp add: ev_def event_end_def sampleLib_def)

text \<open>
  Two events that touch, the first ending at 10 where the second starts: the sweep counts
  them as concurrent, while no time lies in both half-open intervals.
\<close>

theorem computeMaxConcurrency_not_half_open:
  "computeMaxConcurrency sampleLib [ev 0 10 [], ev 10 10 []] = 2
   \<and> \<not> is_max_over_reals (half_open_count [ev 0 10 [], ev 10 10 []])
         (computeMaxConcurrency sampleLib [ev 0 10 [], ev 10 10 []])"
proof -
  have "half_open_count [ev 0 10 [], ev 10 10 []] t \<noteq> 2" for t
    by (simp add: half_open_count_def ev_def)
  then show ?thesis
    by (simp add: cmc_touching is_max_over_reals_def)
qed

section \<open>Properties of the engine\<close>

subsection \<open>Aggregation\<close>

lemma fold_sum_eq: "fold_sum a vs = a + sum_list vs"
  by (induction vs arbitrary: a) auto

lemma fold_max_eq: "fold_max m vs = Max (set (m # vs))"
proof (induction vs arbitrary: m)
  case Nil show ?case by simp
next
  case (Cons v vs)
  have "Max (insert m (insert v (set vs))) = max m (Max (insert v (set vs)))"
    by (subst Max_insert) auto
  moreover have "Max (insert (if v > m then v else m) (set vs)) = Max (insert (max m v) (set vs))"
    by (simp add: max_def)
  moreover have "Max (insert (max m v) (set vs)) = max m (Max (insert v (set vs)))"
    by (cases "vs = []") (auto simp: max.assoc)
  ultimately show ?case using Cons [of "if v > m then v else m"] by simp
qed

lemma fold_min_eq: "fold_min m vs = Min (set (m # vs))"
proof (induction vs arbitrary: m)
  case Nil show ?case by simp
next
  case (Cons v vs)
  have "Min (insert m (insert v (set vs))) = min m (Min (insert v (set vs)))"
    by (subst Min_insert) auto
  moreover have "Min (insert (if v < m then v else m) (set vs)) = Min (insert (min m v) (set vs))"
    by (simp add: min_def)
  moreover have "Min (insert (min m v) (set vs)) = min m (Min (insert v (set vs)))"
    by (cases "vs = []") (auto simp: min.assoc)
  ultimately show ?case using Cons [of "if v < m then v else m"] by simp
qed

lemma aggregate_nonempty:
  assumes "vs \<noteq> []"
  shows "aggregate AggMax vs = Some (Max (set vs))"
    and "aggregate AggMin vs = Some (Min (set vs))"
    and "aggregate AggAvg vs = Some (sum_list vs / real (length vs))"
proof -
  obtain v rest where vs: "vs = v # rest" using assms by (cases vs) auto
  show "aggregate AggMax vs = Some (Max (set vs))"
    by (simp add: aggregate_def vs fold_max_eq AggMax_def AggCount_def AggSum_def)
  show "aggregate AggMin vs = Some (Min (set vs))"
    by (simp add: aggregate_def vs fold_min_eq AggMin_def AggMax_def AggCount_def AggSum_def)
  show "aggregate AggAvg vs = Some (sum_list vs / real (length vs))"
    by (simp add: aggregate_def vs fold_sum_eq AggAvg_def AggMin_def AggMax_def AggCount_def
        AggSum_def)
qed

lemma collect_values_count: "collect_values AggCount var rows = replicate (length rows) 1"
  by (induction rows) auto

text \<open>The number a binding holds for a variable, if it holds one.\<close>

lemma collect_values_numeric:
  "op \<noteq> AggCount \<Longrightarrow>
   collect_values op var rows =
     List.map_filter (\<lambda>b. case b var of
                             None \<Rightarrow> None
                           | Some val \<Rightarrow> (case toFloat64 val of Inl err \<Rightarrow> None | Inr x \<Rightarrow> Some x))
       rows"
  by (induction rows) (auto simp: List.map_filter_simps split: option.splits sum.splits)

text \<open>
  C5. An aggregation evaluates its body under the given bindings and collects a number
  from each resulting row (1 for \<open>count\<close>, else the number bound to the variable, rows
  without one being skipped). \<open>count\<close> binds the number of rows and \<open>sum\<close> the sum, both 0
  when nothing was collected; \<open>max\<close>, \<open>min\<close> and \<open>avg\<close> give no candidate when nothing was
  collected, and otherwise bind the maximum, the minimum and the arithmetic mean. The
  result is bound to the \<open>into\<close> variable.
\<close>

theorem evaluateAggregation_cases:
  assumes "evaluateBody L e body [bindings] = Inr rows"
    and "vs = collect_values op var rows"
  shows "(op = AggCount \<longrightarrow>
            evaluateClause L e (Aggregation op var body into) bindings
              = Inr [bindings(into \<mapsto> VFloat (real (length rows)))])
       \<and> (op = AggSum \<longrightarrow>
            evaluateClause L e (Aggregation op var body into) bindings
              = Inr [bindings(into \<mapsto> VFloat (sum_list vs))])
       \<and> (op \<in> {AggMax, AggMin, AggAvg} \<and> vs = [] \<longrightarrow>
            evaluateClause L e (Aggregation op var body into) bindings = Inr [])
       \<and> (op = AggMax \<and> vs \<noteq> [] \<longrightarrow>
            evaluateClause L e (Aggregation op var body into) bindings
              = Inr [bindings(into \<mapsto> VFloat (Max (set vs)))])
       \<and> (op = AggMin \<and> vs \<noteq> [] \<longrightarrow>
            evaluateClause L e (Aggregation op var body into) bindings
              = Inr [bindings(into \<mapsto> VFloat (Min (set vs)))])
       \<and> (op = AggAvg \<and> vs \<noteq> [] \<longrightarrow>
            evaluateClause L e (Aggregation op var body into) bindings
              = Inr [bindings(into \<mapsto> VFloat (sum_list vs / real (length vs)))])"
proof -
  have ev: "evaluateClause L e (Aggregation op var body into) bindings
      = (case aggregate op vs of None \<Rightarrow> Inr []
         | Some result \<Rightarrow> Inr [bindings(into \<mapsto> VFloat result)])"
    using assms by simp
  have cnt: "op = AggCount \<Longrightarrow> aggregate op vs = Some (real (length rows))"
    using assms(2) by (simp add: aggregate_def collect_values_count)
  have sm: "op = AggSum \<Longrightarrow> aggregate op vs = Some (sum_list vs)"
    by (simp add: aggregate_def fold_sum_eq AggSum_def AggCount_def)
  have emp: "op \<in> {AggMax, AggMin, AggAvg} \<Longrightarrow> vs = [] \<Longrightarrow> aggregate op vs = None"
    by (auto simp: aggregate_def AggSum_def AggCount_def AggMax_def AggMin_def AggAvg_def)
  show ?thesis
    unfolding ev using cnt sm emp aggregate_nonempty [of vs] by auto
qed

subsection \<open>Idempotence\<close>

lemma add_derived_count:
  "add_derived L derived e n = (e', n') \<Longrightarrow> n \<le> n' \<and> (n' = n \<longrightarrow> e' = e)"
proof (induction derived arbitrary: e n)
  case Nil then show ?case by simp
next
  case (Cons f derived)
  show ?case
  proof (cases "factExists L e f")
    case True
    then show ?thesis using Cons.IH [of e n] Cons.prems by simp
  next
    case False
    then have "add_derived L derived (AddFact e f) (n + 1) = (e', n')"
      using Cons.prems by simp
    then have "n + 1 \<le> n'" using Cons.IH [of "AddFact e f" "n + 1"] by simp
    then show ?thesis by simp
  qed
qed

lemma evaluate_pass_count:
  "evaluate_pass L rs e n = Inr (e', n') \<Longrightarrow> n \<le> n' \<and> (n' = n \<longrightarrow> e' = e)"
proof (induction rs arbitrary: e n)
  case Nil then show ?case by simp
next
  case (Cons r rs)
  from Cons.prems obtain derived where d: "evaluateRule L e r = Inr derived"
    by (cases "evaluateRule L e r") auto
  obtain e1 n1 where a: "add_derived L derived e n = (e1, n1)"
    by (cases "add_derived L derived e n")
  have p: "evaluate_pass L rs e1 n1 = Inr (e', n')" using Cons.prems d a by simp
  have "n \<le> n1 \<and> (n1 = n \<longrightarrow> e1 = e)" using add_derived_count [OF a] .
  moreover have "n1 \<le> n' \<and> (n' = n1 \<longrightarrow> e' = e1)" using Cons.IH [OF p] .
  ultimately show ?case by auto
qed

lemma Evaluate_fixpoint:
  assumes "Evaluate L e = Some y"
  shows "\<forall>e'. y = Inr e' \<longrightarrow> evaluate_pass L (rules e') e' 0 = Inr (e', 0)"
proof (rule Evaluate.raw_induct
    [where P = "\<lambda>L e y. \<forall>e'. y = Inr e' \<longrightarrow> evaluate_pass L (rules e') e' 0 = Inr (e', 0)",
     OF _ assms])
  fix Ev :: "GoLib \<Rightarrow> Engine \<Rightarrow> (error + Engine) option" and L e y
  assume IH: "\<And>L e y. Ev L e = Some y \<Longrightarrow>
      \<forall>e'. y = Inr e' \<longrightarrow> evaluate_pass L (rules e') e' 0 = Inr (e', 0)"
  assume eq: "(case evaluate_pass L (rules e) e 0 of
                Inl err \<Rightarrow> Some (Inl err)
              | Inr (e', newFacts) \<Rightarrow> if newFacts = 0 then Some (Inr e') else Ev L e') = Some y"
  show "\<forall>e'. y = Inr e' \<longrightarrow> evaluate_pass L (rules e') e' 0 = Inr (e', 0)"
  proof (cases "evaluate_pass L (rules e) e 0")
    case (Inl err)
    then show ?thesis using eq by auto
  next
    case (Inr p)
    obtain e1 n1 where p: "p = (e1, n1)" by (cases p)
    show ?thesis
    proof (cases "n1 = 0")
      case True
      then have "e1 = e" using evaluate_pass_count [of L "rules e" e 0 e1 n1] Inr p by simp
      then show ?thesis using eq Inr p True by auto
    next
      case False
      then have "Ev L e1 = Some y" using eq Inr p by simp
      then show ?thesis by (rule IH)
    qed
  qed
qed

text \<open>
  C4. When \<open>Evaluate\<close> has returned successfully and nothing is added, a second run
  succeeds too and returns the same engine: the fact store is unchanged.
\<close>

theorem Evaluate_idempotent:
  assumes "Evaluate L e = Some (Inr e')"
  shows "Evaluate L e' = Some (Inr e')"
proof -
  have "evaluate_pass L (rules e') e' 0 = Inr (e', 0)"
    using Evaluate_fixpoint [OF assms] by simp
  then show ?thesis by (subst Evaluate.simps) simp
qed

subsection \<open>Errors\<close>

lemma compare_strings_error: "compare_strings l r op = Inl err \<Longrightarrow> operator_error err"
  by (auto simp: compare_strings_def operator_error_def split: if_splits)

lemma compareValues_error: "compareValues L l r op = Inl err \<Longrightarrow> operator_error err"
  by (auto simp: compareValues_def Let_def compare_strings_error split: if_splits prod.splits)

lemma evaluateComparison_error:
  "evaluateComparison L l op r b = Inl err \<Longrightarrow> operator_error err"
  by (auto simp: evaluateComparison_def compareValues_error split: sum.splits if_splits)

lemma evaluateAssignment_error:
  "evaluateAssignment L e var ex b = Inl err \<Longrightarrow> operator_error err"
  by (auto simp: evaluateAssignment_def operator_error_def split: sum.splits error.splits)

lemma evaluateClause_error:
  "(evaluateClause L e c b = Inl err \<longrightarrow> operator_error err)"
  "(evaluateBody L e cs bs = Inl err \<longrightarrow> operator_error err)"
  "(evaluateEach L e c bs = Inl err \<longrightarrow> operator_error err)"
proof (induction L e c b and L e cs bs and L e c bs
       rule: evaluateClause_evaluateBody_evaluateEach.induct)
  case (1 L e atom bindings)
  show ?case by (simp add: evaluateAtom_def)
next
  case (2 L e compLeft op compRight bindings)
  show ?case by (auto dest: evaluateComparison_error)
next
  case (3 L e var ex bindings)
  show ?case by (auto dest: evaluateAssignment_error)
next
  case (4 L e op var body into bindings)
  then show ?case by (auto split: sum.splits option.splits)
next
  case (5 L e atom bindings)
  show ?case by (simp add: evaluateNegation_def evaluateAtom_def)
next
  case (6 L e result)
  show ?case by simp
next
  case (7 L e clause clauses result)
  then show ?case by (auto split: sum.splits if_splits)
next
  case (8 L e clause)
  show ?case by simp
next
  case (9 L e clause b bs)
  then show ?case by (auto split: sum.splits)
qed

lemma evaluate_pass_error: "evaluate_pass L rs e n = Inl err \<Longrightarrow> operator_error err"
proof (induction rs arbitrary: e n)
  case Nil then show ?case by simp
next
  case (Cons r rs)
  show ?case
  proof (cases "evaluateRule L e r")
    case (Inl err')
    then have "evaluateBody L e (Body r) [Map.empty] = Inl err'"
      by (auto simp: evaluateRule_def split: sum.splits)
    then have "operator_error err'" using evaluateClause_error(2) by blast
    then show ?thesis using Cons.prems Inl by simp
  next
    case (Inr derived)
    obtain e1 n1 where a: "add_derived L derived e n = (e1, n1)"
      by (cases "add_derived L derived e n")
    then show ?thesis using Cons.prems Inr Cons.IH [of e1 n1] by simp
  qed
qed

lemma Evaluate_error:
  assumes "Evaluate L e = Some y"
  shows "\<forall>err. y = Inl err \<longrightarrow> operator_error err"
proof (rule Evaluate.raw_induct
    [where P = "\<lambda>L e y. \<forall>err. y = Inl err \<longrightarrow> operator_error err", OF _ assms])
  fix Ev :: "GoLib \<Rightarrow> Engine \<Rightarrow> (error + Engine) option" and L e y
  assume IH: "\<And>L e y. Ev L e = Some y \<Longrightarrow> \<forall>err. y = Inl err \<longrightarrow> operator_error err"
  assume eq: "(case evaluate_pass L (rules e) e 0 of
                Inl err \<Rightarrow> Some (Inl err)
              | Inr (e', newFacts) \<Rightarrow> if newFacts = 0 then Some (Inr e') else Ev L e') = Some y"
  show "\<forall>err. y = Inl err \<longrightarrow> operator_error err"
  proof (cases "evaluate_pass L (rules e) e 0")
    case (Inl err)
    then show ?thesis using eq evaluate_pass_error [of L "rules e" e 0 err] by auto
  next
    case (Inr p)
    obtain e1 n1 where p: "p = (e1, n1)" by (cases p)
    show ?thesis
    proof (cases "n1 = 0")
      case True
      then show ?thesis using eq Inr p by auto
    next
      case False
      then have "Ev L e1 = Some y" using eq Inr p by simp
      then show ?thesis by (rule IH)
    qed
  qed
qed

text \<open>
  C1 (as amended). A division whose right operand is zero makes \<open>evaluateExpression\<close>
  return the error \<open>division by zero\<close>; \<open>evaluateAssignment\<close> answers every error of its
  expression, this one included, with no candidate binding and no error; and \<open>Evaluate\<close>
  never returns the error \<open>division by zero\<close>.
\<close>

theorem division_by_zero_not_fatal:
  "(evaluateExpression L e exLeft b = Inr leftVal \<and> evaluateExpression L e exRight b = Inr rightVal
      \<and> toFloat64 leftVal = Inr left \<and> toFloat64 rightVal = Inr 0
     \<longrightarrow> evaluateExpression L e (BinaryExpr exLeft OpDiv exRight) b
          = Inl (Errorf ''division by zero''))
   \<and> (evaluateExpression L e ex b = Inl (Errorf msg)
     \<longrightarrow> evaluateClause L e (Assignment var ex) b = Inr [])
   \<and> Evaluate L e \<noteq> Some (Inl (Errorf ''division by zero''))"
proof (intro conjI impI)
  assume "evaluateExpression L e exLeft b = Inr leftVal \<and> evaluateExpression L e exRight b = Inr rightVal
      \<and> toFloat64 leftVal = Inr left \<and> toFloat64 rightVal = Inr 0"
  then show "evaluateExpression L e (BinaryExpr exLeft OpDiv exRight) b
          = Inl (Errorf ''division by zero'')"
    by (simp add: OpDiv_def OpAdd_def OpSub_def OpMul_def)
next
  assume "evaluateExpression L e ex b = Inl (Errorf msg)"
  then show "evaluateClause L e (Assignment var ex) b = Inr []"
    by (simp add: evaluateAssignment_def)
next
  have "\<not> operator_error (Errorf ''division by zero'')" by (simp add: operator_error_def)
  then show "Evaluate L e \<noteq> Some (Inl (Errorf ''division by zero''))"
    using Evaluate_error [of L e "Inl (Errorf ''division by zero'')"] by auto
qed

subsection \<open>Examples\<close>

lemmas engine_defs =
  sampleEngine_def AddFacts_def AddFact_def fact1_def divRule_def copyRule_def
  evaluateRule_def evaluateAtom_def evaluateAssignment_def evaluateComparison_def
  evaluateNegation_def instantiateAtom_def factExists_def factsEqual_def valuesEqual_def
  toFloat64NoErr_def OpDiv_def OpAdd_def OpSub_def OpMul_def OpMod_def Let_def

lemma div_eval:
  "evaluateExpression sampleLib (sampleEngine [fact1 ''p'' (VInt 1)] [divRule])
     (BinaryExpr (TermExpr (Variable ''?X'')) OpDiv (TermExpr (Constant (VInt 0))))
     [''?X'' \<mapsto> VInt 1]
   = Inl (Errorf ''division by zero'')"
  by (simp add: engine_defs)

lemma div_Evaluate:
  "Evaluate sampleLib (sampleEngine [fact1 ''p'' (VInt 1)] [divRule])
     = Some (Inr (sampleEngine [fact1 ''p'' (VInt 1)] [divRule]))"
  by (subst Evaluate.simps) (simp add: engine_defs)

lemma copy_Evaluate:
  "Evaluate sampleLib (sampleEngine [fact1 ''p'' (VInt 1), fact1 ''p'' (VInt 2)] [copyRule])
     = Some (Inr (sampleEngine [fact1 ''p'' (VInt 1), fact1 ''p'' (VInt 2),
                                fact1 ''q'' (VInt 1), fact1 ''q'' (VInt 2)] [copyRule]))"
  apply (subst Evaluate.simps)
  apply (simp add: engine_defs)
  apply (subst Evaluate.simps)
  apply (simp add: engine_defs)
  done

text \<open>
  A rule \<open>q(?Y) :- p(?X), ?Y = ?X / 0\<close> over the fact \<open>p(1)\<close>: its body divides by zero, and
  \<open>Evaluate\<close> returns successfully with the store as it was.
\<close>

theorem division_by_zero_swallowed:
  "evaluateExpression sampleLib (sampleEngine [fact1 ''p'' (VInt 1)] [divRule])
     (BinaryExpr (TermExpr (Variable ''?X'')) OpDiv (TermExpr (Constant (VInt 0))))
     [''?X'' \<mapsto> VInt 1]
     = Inl (Errorf ''division by zero'')
   \<and> Evaluate sampleLib (sampleEngine [fact1 ''p'' (VInt 1)] [divRule])
     = Some (Inr (sampleEngine [fact1 ''p'' (VInt 1)] [divRule]))"
  by (rule conjI [OF div_eval div_Evaluate])

theorem division_by_zero_not_fatal_witness:
  "evaluateClause sampleLib (sampleEngine [fact1 ''p'' (VInt 1)] [divRule])
     (Assignment ''?Y''
        (BinaryExpr (TermExpr (Variable ''?X'')) OpDiv (TermExpr (Constant (VInt 0)))))
     [''?X'' \<mapsto> VInt 1]
     = Inr []
   \<and> Evaluate sampleLib (sampleEngine [fact1 ''p'' (VInt 1)] [divRule])
     \<noteq> Some (Inl (Errorf ''division by zero''))"
  using division_by_zero_not_fatal
    [where L = sampleLib and e = "sampleEngine [fact1 ''p'' (VInt 1)] [divRule]"
       and ex = "BinaryExpr (TermExpr (Variable ''?X'')) OpDiv (TermExpr (Constant (VInt 0)))"
       and b = "[''?X'' \<mapsto> VInt 1]" and msg = "''division by zero''" and var = "''?Y''"
       and exLeft = "TermExpr (Variable ''?X'')" and leftVal = "VInt 1" and left = 1
       and exRight = "TermExpr (Constant (VInt 0))" and rightVal = "VInt 0"]
        div_eval
  by blast

theorem Evaluate_idempotent_witness:
  "Evaluate sampleLib (sampleEngine [fact1 ''p'' (VInt 1), fact1 ''p'' (VInt 2)] [copyRule])
     = Some (Inr (sampleEngine [fact1 ''p'' (VInt 1), fact1 ''p'' (VInt 2),
                                fact1 ''q'' (VInt 1), fact1 ''q'' (VInt 2)] [copyRule]))
   \<and> Evaluate sampleLib (sampleEngine [fact1 ''p'' (VInt 1), fact1 ''p'' (VInt 2),
                                       fact1 ''q'' (VInt 1), fact1 ''q'' (VInt 2)] [copyRule])
     = Some (Inr (sampleEngine [fact1 ''p'' (VInt 1), fact1 ''p'' (VInt 2),
                                fact1 ''q'' (VInt 1), fact1 ''q'' (VInt 2)] [copyRule]))"
  using Evaluate_idempotent [OF copy_Evaluate] copy_Evaluate by simp

lemma times_rows:
  "evaluateBody sampleLib timesEngine
     [AtomClause (Atom ''target_time'' [Variable ''?T'', Variable ''?D''])] [Map.empty]
   = Inr [[''?T'' \<mapsto> VString ''//x'', ''?D'' \<mapsto> VInt 800],
          [''?T'' \<mapsto> VString ''//y'', ''?D'' \<mapsto> VFloat 200]]"
  by (simp add: timesEngine_def fact2_def engine_defs)

lemma none_rows:
  "evaluateBody sampleLib timesEngine
     [AtomClause (Atom ''mnemonic_time'' [Variable ''?T'', Variable ''?D''])] [Map.empty]
   = Inr []"
  by (simp add: timesEngine_def fact2_def engine_defs)

theorem evaluateAggregation_cases_witness:
  "evaluateClause sampleLib timesEngine
     (Aggregation AggCount '''' [AtomClause (Atom ''target_time'' [Variable ''?T'', Variable ''?D''])]
        ''?N'') Map.empty
     = Inr [[''?N'' \<mapsto> VFloat 2]]
   \<and> evaluateClause sampleLib timesEngine
     (Aggregation AggSum ''?D'' [AtomClause (Atom ''target_time'' [Variable ''?T'', Variable ''?D''])]
        ''?S'') Map.empty
     = Inr [[''?S'' \<mapsto> VFloat 1000]]
   \<and> evaluateClause sampleLib timesEngine
     (Aggregation AggAvg ''?D'' [AtomClause (Atom ''target_time'' [Variable ''?T'', Variable ''?D''])]
        ''?A'') Map.empty
     = Inr [[''?A'' \<mapsto> VFloat 500]]
   \<and> evaluateClause sampleLib timesEngine
     (Aggregation AggMax ''?D'' [AtomClause (Atom ''target_time'' [Variable ''?T'', Variable ''?D''])]
        ''?M'') Map.empty
     = Inr [[''?M'' \<mapsto> VFloat 800]]
   \<and> evaluateClause sampleLib timesEngine
     (Aggregation AggMax ''?D'' [AtomClause (Atom ''mnemonic_time'' [Variable ''?T'', Variable ''?D''])]
        ''?M'') Map.empty
     = Inr []"
  using evaluateAggregation_cases [OF times_rows refl, of AggCount "''''" "''?N''"]
        evaluateAggregation_cases [OF times_rows refl, of AggSum "''?D''" "''?S''"]
        evaluateAggregation_cases [OF times_rows refl, of AggAvg "''?D''" "''?A''"]
        evaluateAggregation_cases [OF times_rows refl, of AggMax "''?D''" "''?M''"]
        evaluateAggregation_cases [OF none_rows refl, of AggMax "''?D''" "''?M''"]
  by (simp add: AggCount_def AggSum_def AggAvg_def AggMax_def AggMin_def)

section \<open>Properties of the parser\<close>

subsection \<open>The expression parser returns\<close>

text \<open>
  A call of the expression parser on \<open>k\<close> tokens nests at most \<open>5 * k + 5\<close> calls, so a budget
  of that size is never used up; and a call that returned a result within a budget returns
  the same result within every larger one.
\<close>

lemma peek_nonempty: "Type (peek ts) \<noteq> TokenEOF \<Longrightarrow> ts \<noteq> []"
  by (auto simp: peek_def eofToken_def)

lemma length_advance: "length (advance ts) = length ts - 1"
  by (simp add: advance_def)

lemma expect_shorter: "expect typ ts = Inr (tok, ts') \<Longrightarrow> length ts' \<le> length ts - 1"
  by (auto simp: expect_def Let_def advance_def split: if_splits)

lemma expect_nonempty:
  "typ \<noteq> TokenEOF \<Longrightarrow> expect typ ts = Inr (tok, ts') \<Longrightarrow> length ts' < length ts"
  by (cases ts) (auto simp: expect_def Let_def advance_def peek_def eofToken_def split: if_splits)

lemma match_length:
  "match typ ts = (m, ts') \<Longrightarrow> length ts' \<le> length ts"
  by (auto simp: match_def advance_def split: if_splits)

lemma parse_bounds:
  "(parseAdditive L n ts = None \<longrightarrow> n < 5 * length ts + 5) \<and>
   (\<forall>e r. parseAdditive L n ts = Some (Inr (e, r)) \<longrightarrow> length r < length ts)"
  "(additive_loop L n left ts = None \<longrightarrow> n < 5 * length ts + 5) \<and>
   (\<forall>e r. additive_loop L n left ts = Some (Inr (e, r)) \<longrightarrow> length r \<le> length ts)"
  "(parseMultiplicative L n ts = None \<longrightarrow> n < 5 * length ts + 4) \<and>
   (\<forall>e r. parseMultiplicative L n ts = Some (Inr (e, r)) \<longrightarrow> length r < length ts)"
  "(multiplicative_loop L n left ts = None \<longrightarrow> n < 5 * length ts + 4) \<and>
   (\<forall>e r. multiplicative_loop L n left ts = Some (Inr (e, r)) \<longrightarrow> length r \<le> length ts)"
  "(parsePrimary L n ts = None \<longrightarrow> n < 5 * length ts + 3) \<and>
   (\<forall>e r. parsePrimary L n ts = Some (Inr (e, r)) \<longrightarrow> length r < length ts)"
  "(parseFunctionCall L n ts = None \<longrightarrow> n < 5 * length ts + 2) \<and>
   (\<forall>e r. parseFunctionCall L n ts = Some (Inr (e, r)) \<longrightarrow> length r < length ts)"
  "(call_args L n ts args = None \<longrightarrow> n < 5 * length ts + 6) \<and>
   (\<forall>e r. call_args L n ts args = Some (Inr (e, r)) \<longrightarrow> length r \<le> length ts)"
proof (induction L n ts and L n left ts and L n ts and L n left ts and L n ts and L n ts
         and L n ts args
       rule: parseAdditive_additive_loop_parseMultiplicative_multiplicative_loop_parsePrimary_parseFunctionCall_call_args.induct)
  case (2 L n ts)
  then show ?case
    by (auto split: option.splits sum.splits prod.splits) force+
next
  case (4 L n left ts)
  then show ?case
    by (auto simp: Let_def length_advance dest!: peek_nonempty split: option.splits sum.splits prod.splits) force+
next
  case (6 L n ts)
  then show ?case
    by (auto split: option.splits sum.splits prod.splits) force+
next
  case (8 L n left ts)
  then show ?case
    by (auto simp: Let_def length_advance split: option.splits sum.splits prod.splits) force+
next
  case (10 L n ts)
  have "Token.Type (peek ts) = TokenLParen \<Longrightarrow> 0 < length ts"
    by (cases ts) (auto simp: peek_def eofToken_def)
  with 10 show ?case
    by (auto simp: Let_def length_advance dest!: parseTerm_shorter expect_shorter split: option.splits sum.splits prod.splits)
       (force simp: neq_Nil_conv)+
next
  case (12 L n ts)
  show ?case
  proof (cases "expect TokenLParen (advance ts)")
    case (Inl err)
    then show ?thesis by (simp add: Let_def)
  next
    case (Inr b)
    obtain lp ts1 where b: "b = (lp, ts1)" by (cases b)
    have len: "length ts1 + 2 \<le> length ts"
      using expect_nonempty [of TokenLParen "advance ts" lp ts1] Inr b
      by (simp add: length_advance)
    have IH: "(call_args L n ts1 [] = None \<longrightarrow> n < 5 * length ts1 + 6) \<and>
       (\<forall>e r. call_args L n ts1 [] = Some (Inr (e, r)) \<longrightarrow> length r \<le> length ts1)"
      using 12 [OF refl Inr b [symmetric]] .
    show ?thesis
    proof (cases "call_args L n ts1 []")
      case None
      with IH len Inr b show ?thesis by (simp add: Let_def)
    next
      case (Some res)
      show ?thesis
      proof (cases res)
        case (Inl err)
        with Some Inr b show ?thesis by (simp add: Let_def)
      next
        case (Inr c)
        obtain as ts2 where c: "c = (as, ts2)" by (cases c)
        have "length ts2 \<le> length ts1" using IH Some Inr c by simp
        with len Some Inr c b \<open>expect TokenLParen (advance ts) = Inr b\<close> show ?thesis
          by (auto simp: Let_def dest!: expect_shorter split: sum.splits)
      qed
    qed
  qed
next
  case (14 L n ts args)
  show ?case
  proof (cases "Token.Type (peek ts) \<noteq> TokenRParen")
    case False
    then show ?thesis by simp
  next
    case True
    note IH1 = 14(1) [OF True]
    show ?thesis
    proof (cases "parseAdditive L n ts")
      case None
      with IH1 True show ?thesis by simp
    next
      case (Some res)
      show ?thesis
      proof (cases res)
        case (Inl err)
        with Some True show ?thesis by simp
      next
        case (Inr b)
        obtain expr ts1 where b: "b = (expr, ts1)" by (cases b)
        obtain matched ts2 where m: "match TokenComma ts1 = (matched, ts2)"
          by (cases "match TokenComma ts1")
        have l1: "length ts1 < length ts" using IH1 Some Inr b by simp
        have l2: "length ts2 \<le> length ts1" using m by (rule match_length)
        show ?thesis
        proof (cases matched)
          case False
          with True Some Inr b m l1 l2 show ?thesis by simp
        next
          case yes: True
          have IH2: "(call_args L n ts2 (args @ [expr]) = None \<longrightarrow> n < 5 * length ts2 + 6) \<and>
            (\<forall>e r. call_args L n ts2 (args @ [expr]) = Some (Inr (e, r))
                \<longrightarrow> length r \<le> length ts2)"
            using 14(2) [OF True Some Inr b [symmetric] m [symmetric]] yes by simp
          from True Some Inr b m yes
          have eq: "call_args L (Suc n) ts args = call_args L n ts2 (args @ [expr])" by simp
          show ?thesis unfolding eq using IH2 l1 l2 by auto
        qed
      qed
    qed
  qed
qed simp_all

lemma parse_fuel_Suc:
  "\<forall>r. parseAdditive L n ts = Some r \<longrightarrow> parseAdditive L (Suc n) ts = Some r"
  "\<forall>r. additive_loop L n left ts = Some r \<longrightarrow> additive_loop L (Suc n) left ts = Some r"
  "\<forall>r. parseMultiplicative L n ts = Some r \<longrightarrow> parseMultiplicative L (Suc n) ts = Some r"
  "\<forall>r. multiplicative_loop L n left ts = Some r \<longrightarrow> multiplicative_loop L (Suc n) left ts = Some r"
  "\<forall>r. parsePrimary L n ts = Some r \<longrightarrow> parsePrimary L (Suc n) ts = Some r"
  "\<forall>r. parseFunctionCall L n ts = Some r \<longrightarrow> parseFunctionCall L (Suc n) ts = Some r"
  "\<forall>r. call_args L n ts args = Some r \<longrightarrow> call_args L (Suc n) ts args = Some r"
proof (induction L n ts and L n left ts and L n ts and L n left ts and L n ts and L n ts
         and L n ts args
       rule: parseAdditive_additive_loop_parseMultiplicative_multiplicative_loop_parsePrimary_parseFunctionCall_call_args.induct)
  case (2 L n ts)
  show ?case
  proof (intro allI impI)
    fix r assume a: "parseAdditive L (Suc n) ts = Some r"
    show "parseAdditive L (Suc (Suc n)) ts = Some r"
    proof (cases "parseMultiplicative L n ts")
      case None
      with a show ?thesis by simp
    next
      case (Some res)
      then have s: "parseMultiplicative L (Suc n) ts = Some res" using 2(1) by simp
      show ?thesis
      proof (cases res)
        case (Inl err)
        from a Some Inl have "r = Inl err" by simp
        with s Inl show ?thesis by (simp del: parseMultiplicative.simps)
      next
        case (Inr b)
        obtain left ts1 where b: "b = (left, ts1)" by (cases b)
        from a Some Inr b have "additive_loop L n left ts1 = Some r" by simp
        then have "additive_loop L (Suc n) left ts1 = Some r"
          using 2(2) [OF Some Inr b [symmetric]] by simp
        with s Inr b show ?thesis
          by (simp del: parseMultiplicative.simps additive_loop.simps)
      qed
    qed
  qed
next
  case (4 L n left ts)
  show ?case
  proof (intro allI impI)
    fix r assume a: "additive_loop L (Suc n) left ts = Some r"
    show "additive_loop L (Suc (Suc n)) left ts = Some r"
    proof (cases "Token.Type (peek ts) \<noteq> TokenPlus \<and> Token.Type (peek ts) \<noteq> TokenMinus")
      case True
      with a show ?thesis by (simp add: Let_def)
    next
      case False
      define op where "op = (if Token.Type (peek ts) = TokenPlus then OpAdd else OpSub)"
      show ?thesis
      proof (cases "parseMultiplicative L n (advance ts)")
        case None
        with a False show ?thesis by (simp add: Let_def)
      next
        case (Some res)
        then have s: "parseMultiplicative L (Suc n) (advance ts) = Some res"
          using 4(1) [OF refl False refl] by simp
        show ?thesis
        proof (cases res)
          case (Inl err)
          from a Some Inl False have "r = Inl err" by (simp add: Let_def)
          with s Inl False show ?thesis by (simp add: Let_def del: parseMultiplicative.simps)
        next
          case (Inr b)
          obtain right ts1 where b: "b = (right, ts1)" by (cases b)
          from a Some Inr b False
          have "additive_loop L n (BinaryExpr left op right) ts1 = Some r"
            by (simp add: Let_def op_def)
          then have "additive_loop L (Suc n) (BinaryExpr left op right) ts1 = Some r"
            using 4(2) [OF refl False refl Some Inr b [symmetric]] by (simp add: op_def)
          with s Inr b False show ?thesis
            by (subst additive_loop.simps) (auto simp: Let_def op_def simp del: parseMultiplicative.simps additive_loop.simps)
        qed
      qed
    qed
  qed
next
  case (6 L n ts)
  show ?case
  proof (intro allI impI)
    fix r assume a: "parseMultiplicative L (Suc n) ts = Some r"
    show "parseMultiplicative L (Suc (Suc n)) ts = Some r"
    proof (cases "parsePrimary L n ts")
      case None
      with a show ?thesis by simp
    next
      case (Some res)
      then have s: "parsePrimary L (Suc n) ts = Some res" using 6(1) by simp
      show ?thesis
      proof (cases res)
        case (Inl err)
        from a Some Inl have "r = Inl err" by simp
        with s Inl show ?thesis by (simp del: parsePrimary.simps)
      next
        case (Inr b)
        obtain left ts1 where b: "b = (left, ts1)" by (cases b)
        from a Some Inr b have "multiplicative_loop L n left ts1 = Some r" by simp
        then have "multiplicative_loop L (Suc n) left ts1 = Some r"
          using 6(2) [OF Some Inr b [symmetric]] by simp
        with s Inr b show ?thesis
          by (simp del: parsePrimary.simps multiplicative_loop.simps)
      qed
    qed
  qed
next
  case (8 L n left ts)
  show ?case
  proof (intro allI impI)
    fix r assume a: "multiplicative_loop L (Suc n) left ts = Some r"
    show "multiplicative_loop L (Suc (Suc n)) left ts = Some r"
    proof (cases "Token.Type (peek ts) \<noteq> TokenStar \<and> Token.Type (peek ts) \<noteq> TokenSlash
        \<and> Token.Type (peek ts) \<noteq> TokenPercent")
      case True
      with a show ?thesis by (simp add: Let_def)
    next
      case False
      define op where "op = (if Token.Type (peek ts) = TokenStar then OpMul
                   else if Token.Type (peek ts) = TokenSlash then OpDiv else OpMod)"
      show ?thesis
      proof (cases "parsePrimary L n (advance ts)")
        case None
        with a False show ?thesis by (simp add: Let_def)
      next
        case (Some res)
        then have s: "parsePrimary L (Suc n) (advance ts) = Some res"
          using 8(1) [OF refl False refl] by simp
        show ?thesis
        proof (cases res)
          case (Inl err)
          from a Some Inl False have "r = Inl err" by (simp add: Let_def)
          with s Inl False show ?thesis by (simp add: Let_def del: parsePrimary.simps)
        next
          case (Inr b)
          obtain right ts1 where b: "b = (right, ts1)" by (cases b)
          from a Some Inr b False
          have "multiplicative_loop L n (BinaryExpr left op right) ts1 = Some r"
            by (simp add: Let_def op_def)
          then have "multiplicative_loop L (Suc n) (BinaryExpr left op right) ts1 = Some r"
            using 8(2) [OF refl False refl Some Inr b [symmetric]] by (simp add: op_def)
          with s Inr b False show ?thesis
            by (subst multiplicative_loop.simps) (auto simp: Let_def op_def simp del: parsePrimary.simps multiplicative_loop.simps)
        qed
      qed
    qed
  qed
next
  case (10 L n ts)
  show ?case
  proof (intro allI impI)
    fix r assume a: "parsePrimary L (Suc n) ts = Some r"
    show "parsePrimary L (Suc (Suc n)) ts = Some r"
    proof (cases "Token.Type (peek ts) = TokenLParen")
      case True
      show ?thesis
      proof (cases "parseAdditive L n (advance ts)")
        case None
        with a True show ?thesis by (simp add: Let_def)
      next
        case (Some res)
        then have s: "parseAdditive L (Suc n) (advance ts) = Some res"
          using 10(1) [OF refl True] by simp
        from a True Some have "r = (case res of Inl err \<Rightarrow> Inl err
            | Inr (expr, ts1) \<Rightarrow> (case expect TokenRParen ts1 of
                 Inl err \<Rightarrow> Inl err | Inr (rp, ts2) \<Rightarrow> Inr (expr, ts2)))"
          by (auto simp: Let_def split: sum.splits prod.splits)
        with s True show ?thesis
          by (auto simp: Let_def simp del: parseAdditive.simps split: sum.splits prod.splits)
      qed
    next
      case notParen: False
      show ?thesis
      proof (cases "Token.Type (peek ts) = TokenIdent \<and> Token.Type (peekN 1 ts) = TokenLParen")
        case True
        from a notParen True have "parseFunctionCall L n ts = Some r" by (simp add: Let_def)
        then have "parseFunctionCall L (Suc n) ts = Some r"
          using 10(2) [OF refl notParen True] by simp
        with notParen True show ?thesis
          by (simp add: Let_def del: parseFunctionCall.simps)
      next
        case False
        with a notParen show ?thesis by (auto simp: Let_def simp del: parseFunctionCall.simps)
      qed
    qed
  qed
next
  case (12 L n ts)
  show ?case
  proof (intro allI impI)
    fix r assume a: "parseFunctionCall L (Suc n) ts = Some r"
    show "parseFunctionCall L (Suc (Suc n)) ts = Some r"
    proof (cases "expect TokenLParen (advance ts)")
      case (Inl err)
      with a show ?thesis by (simp add: Let_def)
    next
      case (Inr b)
      obtain lp ts1 where b: "b = (lp, ts1)" by (cases b)
      show ?thesis
      proof (cases "call_args L n ts1 []")
        case None
        with a Inr b show ?thesis by (simp add: Let_def)
      next
        case (Some res)
        then have s: "call_args L (Suc n) ts1 [] = Some res"
          using 12 [OF refl Inr b [symmetric]] by simp
        from a Inr b Some have "r = (case res of Inl err \<Rightarrow> Inl err
            | Inr (args, ts2) \<Rightarrow> (case expect TokenRParen ts2 of
                 Inl err \<Rightarrow> Inl err
               | Inr (rp, ts3) \<Rightarrow> Inr (FunctionCall (Token.Value (peek ts)) args, ts3)))"
          by (auto simp: Let_def split: sum.splits prod.splits)
        with s Inr b show ?thesis
          by (auto simp: Let_def simp del: call_args.simps split: sum.splits prod.splits)
      qed
    qed
  qed
next
  case (14 L n ts args)
  show ?case
  proof (intro allI impI)
    fix r assume a: "call_args L (Suc n) ts args = Some r"
    show "call_args L (Suc (Suc n)) ts args = Some r"
    proof (cases "Token.Type (peek ts) \<noteq> TokenRParen")
      case False
      with a show ?thesis by simp
    next
      case True
      show ?thesis
      proof (cases "parseAdditive L n ts")
        case None
        with a True show ?thesis by simp
      next
        case (Some res)
        then have s: "parseAdditive L (Suc n) ts = Some res"
          using 14(1) [OF True] by simp
        show ?thesis
        proof (cases res)
          case (Inl err)
          from a True Some Inl have "r = Inl err" by simp
          with s Inl True show ?thesis by (simp del: parseAdditive.simps)
        next
          case (Inr b)
          obtain expr ts1 where b: "b = (expr, ts1)" by (cases b)
          obtain matched ts2 where m: "match TokenComma ts1 = (matched, ts2)"
            by (cases "match TokenComma ts1")
          show ?thesis
          proof (cases matched)
            case False
            from a True Some Inr b m False have "r = Inr (args @ [expr], ts2)" by simp
            with s Inr b m False True show ?thesis by (simp del: parseAdditive.simps)
          next
            case yes: True
            from a True Some Inr b m yes
            have "call_args L n ts2 (args @ [expr]) = Some r" by simp
            then have "call_args L (Suc n) ts2 (args @ [expr]) = Some r"
              using 14(2) [OF True Some Inr b [symmetric] m [symmetric]] yes by simp
            with s Inr b m yes True show ?thesis
              by (subst call_args.simps) (simp del: parseAdditive.simps call_args.simps)
          qed
        qed
      qed
    qed
  qed
qed simp_all

lemma parseAdditive_fuel_mono:
  "parseAdditive L n ts = Some r \<Longrightarrow> n \<le> m \<Longrightarrow> parseAdditive L m ts = Some r"
proof (induction m)
  case 0
  then show ?case by simp
next
  case (Suc m)
  show ?case
  proof (cases "n = Suc m")
    case True
    with Suc.prems show ?thesis by simp
  next
    case False
    with Suc have "parseAdditive L m ts = Some r" by simp
    then show ?thesis using parse_fuel_Suc(1) [of L m ts] by blast
  qed
qed

lemma parseExpression_total:
  assumes "5 * length ts + 5 \<le> n"
  shows "\<exists>r. parseExpression L n ts = Some r"
  using parse_bounds(1) [of L n ts] assms by (cases "parseAdditive L n ts") (auto simp: parseExpression_def)

lemma parseClause_variable_eq:
  assumes "Token.Type (peek ts) = TokenVariable" and "Token.Type (peekN 1 ts) = TokenEq"
  shows "parseClause L (Suc n) ts = parseAssignmentOrComparison L n ts"
  using assms by (simp add: match_def)

subsection \<open>The tie-breaker\<close>

text \<open>
  C6. A clause that starts with a variable and \<open>=\<close>: the parser reads an expression after
  the \<open>=\<close> (the call returns, with a result \<open>r\<close> that is the same for every sufficient budget)
  and the clause it produces is the comparison of the variable with the term by \<open>=\<close> when the
  expression is a single term, and the assignment of the expression to the variable when
  the expression is a binary expression or a function call; an error of the expression is
  the error of the clause.
\<close>

theorem parseClause_tie_breaker:
  assumes "Token.Type (peek ts) = TokenVariable" and "Token.Type (peekN 1 ts) = TokenEq"
  shows "\<exists>r. \<forall>n \<ge> 5 * length ts.
           parseExpression L n (advance (advance ts)) = Some r
         \<and> parseClause L (Suc n) ts
             = Some (case r of
                       Inl err \<Rightarrow> Inl err
                     | Inr (expr, rest) \<Rightarrow> Inr (tie_break (Token.Value (peek ts)) expr, rest))"
proof -
  have "2 \<le> length ts"
    using assms(2) by (cases "1 \<ge> length ts") (auto simp: peekN_def eofToken_def)
  then have len: "5 * length (advance (advance ts)) + 5 \<le> 5 * length ts"
    by (simp add: length_advance)
  then obtain r where r: "parseExpression L (5 * length ts) (advance (advance ts)) = Some r"
    using parseExpression_total [of "advance (advance ts)" "5 * length ts" L] by blast
  have all: "parseExpression L n (advance (advance ts)) = Some r" if "5 * length ts \<le> n" for n
    using r that parseAdditive_fuel_mono [of L "5 * length ts" "advance (advance ts)" r n]
    by (simp add: parseExpression_def)
  show ?thesis
  proof (intro exI [of _ r] allI impI)
    fix n assume n: "5 * length ts \<le> n"
    show "parseExpression L n (advance (advance ts)) = Some r
         \<and> parseClause L (Suc n) ts
             = Some (case r of
                       Inl err \<Rightarrow> Inl err
                     | Inr (expr, rest) \<Rightarrow> Inr (tie_break (Token.Value (peek ts)) expr, rest))"
      using all [OF n] parseClause_variable_eq [OF assms, of L n]
      by (auto simp: parseAssignmentOrComparison_def Let_def
               split: sum.splits prod.splits Expression.splits)
  qed
qed

lemmas parser_defs =
  token_def peek_def peekN_def advance_def match_def expect_def parseTerm_def eofToken_def
  parseExpression_def parseAssignmentOrComparison_def Let_def
  sampleLib_def read_int64_def read_int_def read_nat_def OpEq_def OpMul_def OpDiv_def

theorem parseClause_tie_breaker_witness:
  "parseClause sampleLib 16
       [token TokenVariable ''?V'', token TokenEq ''='', token TokenNumber ''5'']
     = Some (Inr (Comparison (Variable ''?V'') OpEq (Constant (VInt 5)), []))
   \<and> parseClause sampleLib 46
       [token TokenVariable ''?P'', token TokenEq ''='', token TokenLParen ''('',
        token TokenVariable ''?D'', token TokenStar ''*'', token TokenNumber ''100'',
        token TokenRParen '')'', token TokenSlash ''/'', token TokenNumber ''1000'']
     = Some (Inr (Assignment ''?P''
          (BinaryExpr (BinaryExpr (TermExpr (Variable ''?D'')) OpMul (TermExpr (Constant (VInt 100))))
             OpDiv (TermExpr (Constant (VInt 1000)))), []))
   \<and> parseClause sampleLib 31
       [token TokenVariable ''?X'', token TokenEq ''='', token TokenIdent ''abs'',
        token TokenLParen ''('', token TokenVariable ''?Y'', token TokenRParen '')'']
     = Some (Inr (Assignment ''?X'' (FunctionCall ''abs'' [TermExpr (Variable ''?Y'')]), []))
   \<and> parseClause sampleLib 26
       [token TokenVariable ''?X'', token TokenEq ''='', token TokenLParen ''('',
        token TokenIdent ''done'', token TokenRParen '')'']
     = Some (Inr (Comparison (Variable ''?X'') OpEq (Constant (VString ''done'')), []))"
proof -
  let ?a = "[token TokenVariable ''?V'', token TokenEq ''='', token TokenNumber ''5'']"
  have ha: "Token.Type (peek ?a) = TokenVariable" "Token.Type (peekN 1 ?a) = TokenEq"
    by (simp_all add: token_def peek_def peekN_def)
  have ea: "parseExpression sampleLib 15 (advance (advance ?a))
      = Some (Inr (TermExpr (Constant (VInt 5)), []))"
    by (simp add: parser_defs eval_nat_numeral)
  from parseClause_tie_breaker [OF ha, of sampleLib]
  obtain ra where ra: "\<forall>n \<ge> 5 * length ?a.
           parseExpression sampleLib n (advance (advance ?a)) = Some ra
         \<and> parseClause sampleLib (Suc n) ?a
             = Some (case ra of
                       Inl err \<Rightarrow> Inl err
                     | Inr (expr, rest) \<Rightarrow> Inr (tie_break (Token.Value (peek ?a)) expr, rest))" ..
  have "5 * length ?a \<le> 15" by simp
  with ra have pea: "parseExpression sampleLib 15 (advance (advance ?a)) = Some ra"
    and pca: "parseClause sampleLib (Suc 15) ?a
             = Some (case ra of
                       Inl err \<Rightarrow> Inl err
                     | Inr (expr, rest) \<Rightarrow> Inr (tie_break (Token.Value (peek ?a)) expr, rest))"
    by blast+
  from pea ea have rva: "ra = Inr (TermExpr (Constant (VInt 5)), [])"
    by (simp only: option.inject)
  have a: "parseClause sampleLib (Suc 15) ?a
      = Some (Inr (Comparison (Variable ''?V'') OpEq (Constant (VInt 5)), []))"
    unfolding pca rva by (simp add: token_def peek_def)
  let ?b = "[token TokenVariable ''?P'', token TokenEq ''='', token TokenLParen ''('',
        token TokenVariable ''?D'', token TokenStar ''*'', token TokenNumber ''100'',
        token TokenRParen '')'', token TokenSlash ''/'', token TokenNumber ''1000'']"
  have hb: "Token.Type (peek ?b) = TokenVariable" "Token.Type (peekN 1 ?b) = TokenEq"
    by (simp_all add: token_def peek_def peekN_def)
  have eb: "parseExpression sampleLib 45 (advance (advance ?b))
      = Some (Inr (BinaryExpr (BinaryExpr (TermExpr (Variable ''?D'')) OpMul (TermExpr (Constant (VInt 100))))
          OpDiv (TermExpr (Constant (VInt 1000))), []))"
    by (simp add: parser_defs eval_nat_numeral)
  from parseClause_tie_breaker [OF hb, of sampleLib]
  obtain rb where rb: "\<forall>n \<ge> 5 * length ?b.
           parseExpression sampleLib n (advance (advance ?b)) = Some rb
         \<and> parseClause sampleLib (Suc n) ?b
             = Some (case rb of
                       Inl err \<Rightarrow> Inl err
                     | Inr (expr, rest) \<Rightarrow> Inr (tie_break (Token.Value (peek ?b)) expr, rest))" ..
  have "5 * length ?b \<le> 45" by simp
  with rb have peb: "parseExpression sampleLib 45 (advance (advance ?b)) = Some rb"
    and pcb: "parseClause sampleLib (Suc 45) ?b
             = Some (case rb of
                       Inl err \<Rightarrow> Inl err
                     | Inr (expr, rest) \<Rightarrow> Inr (tie_break (Token.Value (peek ?b)) expr, rest))"
    by blast+
  from peb eb have rvb: "rb = Inr (BinaryExpr (BinaryExpr (TermExpr (Variable ''?D'')) OpMul (TermExpr (Constant (VInt 100))))
          OpDiv (TermExpr (Constant (VInt 1000))), [])"
    by (simp only: option.inject)
  have b: "parseClause sampleLib (Suc 45) ?b
      = Some (Inr (Assignment ''?P''
          (BinaryExpr (BinaryExpr (TermExpr (Variable ''?D'')) OpMul (TermExpr (Constant (VInt 100))))
             OpDiv (TermExpr (Constant (VInt 1000)))), []))"
    unfolding pcb rvb by (simp add: token_def peek_def)
  let ?c = "[token TokenVariable ''?X'', token TokenEq ''='', token TokenIdent ''abs'',
        token TokenLParen ''('', token TokenVariable ''?Y'', token TokenRParen '')'']"
  have hc: "Token.Type (peek ?c) = TokenVariable" "Token.Type (peekN 1 ?c) = TokenEq"
    by (simp_all add: token_def peek_def peekN_def)
  have ec: "parseExpression sampleLib 30 (advance (advance ?c))
      = Some (Inr (FunctionCall ''abs'' [TermExpr (Variable ''?Y'')], []))"
    by (simp add: parser_defs eval_nat_numeral)
  from parseClause_tie_breaker [OF hc, of sampleLib]
  obtain rc where rc: "\<forall>n \<ge> 5 * length ?c.
           parseExpression sampleLib n (advance (advance ?c)) = Some rc
         \<and> parseClause sampleLib (Suc n) ?c
             = Some (case rc of
                       Inl err \<Rightarrow> Inl err
                     | Inr (expr, rest) \<Rightarrow> Inr (tie_break (Token.Value (peek ?c)) expr, rest))" ..
  have "5 * length ?c \<le> 30" by simp
  with rc have pec: "parseExpression sampleLib 30 (advance (advance ?c)) = Some rc"
    and pcc: "parseClause sampleLib (Suc 30) ?c
             = Some (case rc of
                       Inl err \<Rightarrow> Inl err
                     | Inr (expr, rest) \<Rightarrow> Inr (tie_break (Token.Value (peek ?c)) expr, rest))"
    by blast+
  from pec ec have rvc: "rc = Inr (FunctionCall ''abs'' [TermExpr (Variable ''?Y'')], [])"
    by (simp only: option.inject)
  have c: "parseClause sampleLib (Suc 30) ?c
      = Some (Inr (Assignment ''?X'' (FunctionCall ''abs'' [TermExpr (Variable ''?Y'')]), []))"
    unfolding pcc rvc by (simp add: token_def peek_def)
  let ?d = "[token TokenVariable ''?X'', token TokenEq ''='', token TokenLParen ''('',
        token TokenIdent ''done'', token TokenRParen '')'']"
  have hd: "Token.Type (peek ?d) = TokenVariable" "Token.Type (peekN 1 ?d) = TokenEq"
    by (simp_all add: token_def peek_def peekN_def)
  have ed: "parseExpression sampleLib 25 (advance (advance ?d))
      = Some (Inr (TermExpr (Constant (VString ''done'')), []))"
    by (simp add: parser_defs eval_nat_numeral)
  from parseClause_tie_breaker [OF hd, of sampleLib]
  obtain rd where rd: "\<forall>n \<ge> 5 * length ?d.
           parseExpression sampleLib n (advance (advance ?d)) = Some rd
         \<and> parseClause sampleLib (Suc n) ?d
             = Some (case rd of
                       Inl err \<Rightarrow> Inl err
                     | Inr (expr, rest) \<Rightarrow> Inr (tie_break (Token.Value (peek ?d)) expr, rest))" ..
  have "5 * length ?d \<le> 25" by simp
  with rd have ped: "parseExpression sampleLib 25 (advance (advance ?d)) = Some rd"
    and pcd: "parseClause sampleLib (Suc 25) ?d
             = Some (case rd of
                       Inl err \<Rightarrow> Inl err
                     | Inr (expr, rest) \<Rightarrow> Inr (tie_break (Token.Value (peek ?d)) expr, rest))"
    by blast+
  from ped ed have rvd: "rd = Inr (TermExpr (Constant (VString ''done'')), [])"
    by (simp only: option.inject)
  have d: "parseClause sampleLib (Suc 25) ?d
      = Some (Inr (Comparison (Variable ''?X'') OpEq (Constant (VString ''done'')), []))"
    unfolding pcd rvd by (simp add: token_def peek_def)
  have "Suc 15 = 16" "Suc 45 = 46" "Suc 30 = 31" "Suc 25 = 26" by simp_all
  with a b c d show ?thesis by (simp only:)
qed

end
